theory Spec2Isabelle
  imports Complex_Main "HOL-Library.Log_Nat"
begin

section \<open>Numbers\<close>

text \<open>
  A TypeScript \<open>number\<close> is modelled as an exact real, without the rounding of IEEE
  doubles, \<open>NaN\<close> and the infinities; the composite score has a second model that has
  them. \<open>Math.round\<close> rounds to the nearest integer, a tie going up.
\<close>

type_synonym number = real

definition Math_round :: "number \<Rightarrow> number" where
  "Math_round x = of_int \<lfloor>x + 1 / 2\<rfloor>"

section \<open>PerformanceDashboard.tsx: the composite score\<close>

text \<open>
  The samples, with their numbers of type \<open>'n\<close>: exact reals in the first model of the
  score below, doubles with \<open>NaN\<close> and the infinities in the second.
\<close>

record 'n PerformanceData =
  fps :: 'n
  latency :: 'n
  cpuUsage :: 'n
  memoryUsage :: 'n
  frameDrops :: 'n
  networkLatency :: 'n
  processingTime :: 'n
  timestamp :: 'n

text \<open>\<open>data.slice(-10)\<close>: the last ten elements, all of them when there are fewer.\<close>

definition slice_last :: "nat \<Rightarrow> 'a list \<Rightarrow> 'a list" where
  "slice_last n xs = drop (length xs - n) xs"

text \<open>
  \<open>recent.reduce((sum, d) => sum + f(d), 0) / recent.length\<close>. On an empty window the
  quotient is \<open>0 / 0\<close>, which is \<open>NaN\<close> in JavaScript: the model returns \<open>None\<close> there,
  so that a division by the zero window length stays visible in the result.
\<close>

definition average ::
  "(number PerformanceData \<Rightarrow> number) \<Rightarrow> number PerformanceData list \<Rightarrow> number option" where
  "average f recent =
     (if length recent = 0 then None
      else Some (foldl (\<lambda>sum d. sum + f d) 0 recent / of_nat (length recent)))"

text \<open>The four sub-scores, local constants of \<open>getPerformanceScore\<close>.\<close>

definition fpsScore :: "number \<Rightarrow> number" where
  "fpsScore avgFps = min (avgFps / 30) 1 * 25"

definition latencyScore :: "number \<Rightarrow> number" where
  "latencyScore avgLatency = max 0 (1 - avgLatency / 100) * 25"

definition cpuScore :: "number \<Rightarrow> number" where
  "cpuScore avgCpu = max 0 (1 - avgCpu / 100) * 25"

definition stabilityScore :: number where
  "stabilityScore = 25"

text \<open>\<open>None\<close> is the result \<open>NaN\<close>, which every later operation would hand on.\<close>

definition getPerformanceScore :: "number PerformanceData list \<Rightarrow> number option" where
  "getPerformanceScore data =
     (if length data = 0 then Some 0
      else let recent = slice_last 10 data in
        (case average fps recent of None \<Rightarrow> None | Some avgFps \<Rightarrow>
        (case average latency recent of None \<Rightarrow> None | Some avgLatency \<Rightarrow>
        (case average cpuUsage recent of None \<Rightarrow> None | Some avgCpu \<Rightarrow>
          Some (Math_round (fpsScore avgFps + latencyScore avgLatency + cpuScore avgCpu
                            + stabilityScore))))))"

record Grade =
  grade :: string
  color :: string
  bg :: string

definition getPerformanceGrade :: "number \<Rightarrow> Grade" where
  "getPerformanceGrade score =
     (if score \<ge> 90 then \<lparr>grade = ''A+'', color = ''text-green-400'', bg = ''bg-green-500/20''\<rparr>
      else if score \<ge> 80 then \<lparr>grade = ''A'', color = ''text-green-400'', bg = ''bg-green-500/20''\<rparr>
      else if score \<ge> 70 then \<lparr>grade = ''B'', color = ''text-yellow-400'', bg = ''bg-yellow-500/20''\<rparr>
      else if score \<ge> 60 then \<lparr>grade = ''C'', color = ''text-orange-400'', bg = ''bg-orange-500/20''\<rparr>
      else \<lparr>grade = ''D'', color = ''text-red-400'', bg = ''bg-red-500/20''\<rparr>)"

text \<open>
  The component's two constants \<open>performanceScore\<close> and \<open>grade\<close>: the grade letter shown
  for a list of samples.
\<close>

definition shown_grade :: "number PerformanceData list \<Rightarrow> string option" where
  "shown_grade data = map_option (\<lambda>performanceScore. grade (getPerformanceGrade performanceScore))
     (getPerformanceScore data)"

text \<open>A sample with the three scored fields given and every other field zero.\<close>

definition sample :: "number \<Rightarrow> number \<Rightarrow> number \<Rightarrow> number PerformanceData" where
  "sample f l c = \<lparr>fps = f, latency = l, cpuUsage = c, memoryUsage = 0, frameDrops = 0,
     networkLatency = 0, processingTime = 0, timestamp = 0\<rparr>"

section \<open>PerformanceDashboard.tsx: the composite score over doubles\<close>

text \<open>
  The same code once more, with the numbers of the engine: a double is a real number, an
  infinity or \<open>NaN\<close>. The result of an arithmetic operation on two numbers is rounded by
  \<open>rnd\<close>, a parameter of the model, which may also overflow to an infinity. The two zeros
  of the doubles are one number here.
\<close>

datatype double = Num real | PInf | NInf | NaN

text \<open>\<open>a <= b\<close> as the engine evaluates it: false when either side is \<open>NaN\<close>.\<close>

fun dle :: "double \<Rightarrow> double \<Rightarrow> bool" where
  "dle NaN b = False"
| "dle a NaN = False"
| "dle NInf b = True"
| "dle a PInf = True"
| "dle (Num x) (Num y) = (x \<le> y)"
| "dle a b = False"

text \<open>
  What the proofs use of rounding to the nearest double: it never gives \<open>NaN\<close>, it is
  monotone, and it leaves the integers up to \<open>2\<^sup>5\<^sup>3\<close> in magnitude as they are. \<open>exact\<close>, the
  rounding that changes no number, is the one of the examples.
\<close>

definition ieee_rounding :: "(real \<Rightarrow> double) \<Rightarrow> bool" where
  "ieee_rounding rnd =
     ((\<forall>x. rnd x \<noteq> NaN) \<and>
      (\<forall>x y. x \<le> y \<longrightarrow> dle (rnd x) (rnd y)) \<and>
      (\<forall>n::int. \<bar>n\<bar> \<le> 2 ^ 53 \<longrightarrow> rnd (of_int n) = Num (of_int n)))"

definition exact :: "real \<Rightarrow> double" where
  "exact x = Num x"

fun d_neg :: "double \<Rightarrow> double" where
  "d_neg (Num x) = Num (- x)"
| "d_neg PInf = NInf"
| "d_neg NInf = PInf"
| "d_neg NaN = NaN"

fun d_add :: "(real \<Rightarrow> double) \<Rightarrow> double \<Rightarrow> double \<Rightarrow> double" where
  "d_add rnd NaN b = NaN"
| "d_add rnd a NaN = NaN"
| "d_add rnd (Num x) (Num y) = rnd (x + y)"
| "d_add rnd PInf NInf = NaN"
| "d_add rnd NInf PInf = NaN"
| "d_add rnd PInf b = PInf"
| "d_add rnd a PInf = PInf"
| "d_add rnd NInf b = NInf"
| "d_add rnd a NInf = NInf"

definition d_sub :: "(real \<Rightarrow> double) \<Rightarrow> double \<Rightarrow> double \<Rightarrow> double" where
  "d_sub rnd a b = d_add rnd a (d_neg b)"

fun d_mul :: "(real \<Rightarrow> double) \<Rightarrow> double \<Rightarrow> double \<Rightarrow> double" where
  "d_mul rnd NaN b = NaN"
| "d_mul rnd a NaN = NaN"
| "d_mul rnd (Num x) (Num y) = rnd (x * y)"
| "d_mul rnd (Num x) b = (if x = 0 then NaN else if (0 < x) = (b = PInf) then PInf else NInf)"
| "d_mul rnd a (Num y) = (if y = 0 then NaN else if (0 < y) = (a = PInf) then PInf else NInf)"
| "d_mul rnd a b = (if a = b then PInf else NInf)"

text \<open>A zero divisor is the positive zero: the divisors are a length and two constants.\<close>

fun d_div :: "(real \<Rightarrow> double) \<Rightarrow> double \<Rightarrow> double \<Rightarrow> double" where
  "d_div rnd NaN b = NaN"
| "d_div rnd a NaN = NaN"
| "d_div rnd (Num x) (Num y) =
     (if y = 0 then (if x = 0 then NaN else if 0 < x then PInf else NInf) else rnd (x / y))"
| "d_div rnd (Num x) b = Num 0"
| "d_div rnd a (Num y) = (if (0 \<le> y) = (a = PInf) then PInf else NInf)"
| "d_div rnd a b = NaN"

definition Math_min :: "double \<Rightarrow> double \<Rightarrow> double" where
  "Math_min a b = (if a = NaN \<or> b = NaN then NaN else if dle a b then a else b)"

definition Math_max :: "double \<Rightarrow> double \<Rightarrow> double" where
  "Math_max a b = (if a = NaN \<or> b = NaN then NaN else if dle a b then b else a)"

fun Math_round_ieee :: "double \<Rightarrow> double" where
  "Math_round_ieee (Num x) = Num (of_int \<lfloor>x + 1 / 2\<rfloor>)"
| "Math_round_ieee a = a"

text \<open>
  \<open>recent.reduce((sum, d) => sum + f(d), 0) / recent.length\<close>; on an empty window this is
  \<open>0 / 0\<close>, so \<open>NaN\<close>.
\<close>

definition average_ieee ::
  "(real \<Rightarrow> double) \<Rightarrow> (double PerformanceData \<Rightarrow> double) \<Rightarrow> double PerformanceData list \<Rightarrow> double" where
  "average_ieee rnd f recent =
     d_div rnd (foldl (\<lambda>sum d. d_add rnd sum (f d)) (Num 0) recent) (Num (of_nat (length recent)))"

definition fpsScore_ieee :: "(real \<Rightarrow> double) \<Rightarrow> double \<Rightarrow> double" where
  "fpsScore_ieee rnd avgFps = d_mul rnd (Math_min (d_div rnd avgFps (Num 30)) (Num 1)) (Num 25)"

definition latencyScore_ieee :: "(real \<Rightarrow> double) \<Rightarrow> double \<Rightarrow> double" where
  "latencyScore_ieee rnd avgLatency =
     d_mul rnd (Math_max (Num 0) (d_sub rnd (Num 1) (d_div rnd avgLatency (Num 100)))) (Num 25)"

definition cpuScore_ieee :: "(real \<Rightarrow> double) \<Rightarrow> double \<Rightarrow> double" where
  "cpuScore_ieee rnd avgCpu =
     d_mul rnd (Math_max (Num 0) (d_sub rnd (Num 1) (d_div rnd avgCpu (Num 100)))) (Num 25)"

definition stabilityScore_ieee :: double where
  "stabilityScore_ieee = Num 25"

definition getPerformanceScore_ieee :: "(real \<Rightarrow> double) \<Rightarrow> double PerformanceData list \<Rightarrow> double" where
  "getPerformanceScore_ieee rnd data =
     (if length data = 0 then Num 0
      else let recent = slice_last 10 data;
               avgFps = average_ieee rnd fps recent;
               avgLatency = average_ieee rnd latency recent;
               avgCpu = average_ieee rnd cpuUsage recent
           in Math_round_ieee
                (d_add rnd
                  (d_add rnd (d_add rnd (fpsScore_ieee rnd avgFps) (latencyScore_ieee rnd avgLatency))
                     (cpuScore_ieee rnd avgCpu))
                  stabilityScore_ieee))"

text \<open>A sample with the three scored fields given and every other field zero.\<close>

definition sample_ieee :: "double \<Rightarrow> double \<Rightarrow> double \<Rightarrow> double PerformanceData" where
  "sample_ieee f l c = \<lparr>fps = f, latency = l, cpuUsage = c, memoryUsage = Num 0,
     frameDrops = Num 0, networkLatency = Num 0, processingTime = Num 0, timestamp = Num 0\<rparr>"

text \<open>
  The range property of the score: every sub-score of the scored window is a number in
  \<open>[0, 25]\<close> and the composite is a number in \<open>[0, 100]\<close>. The samples it is proved for
  are those whose scored fields pass the test \<open>0 <= x\<close>: not \<open>NaN\<close> and not negative.
\<close>

definition in_range :: "real \<Rightarrow> real \<Rightarrow> double \<Rightarrow> bool" where
  "in_range lo hi v = (case v of Num x \<Rightarrow> lo \<le> x \<and> x \<le> hi | _ \<Rightarrow> False)"

definition score_bounds :: "(real \<Rightarrow> double) \<Rightarrow> double PerformanceData list \<Rightarrow> bool" where
  "score_bounds rnd data =
     (let recent = slice_last 10 data
      in in_range 0 25 (fpsScore_ieee rnd (average_ieee rnd fps recent)) \<and>
         in_range 0 25 (latencyScore_ieee rnd (average_ieee rnd latency recent)) \<and>
         in_range 0 25 (cpuScore_ieee rnd (average_ieee rnd cpuUsage recent)) \<and>
         in_range 0 25 stabilityScore_ieee \<and>
         in_range 0 100 (getPerformanceScore_ieee rnd data))"

definition scored_fields_nonneg :: "double PerformanceData \<Rightarrow> bool" where
  "scored_fields_nonneg d =
     (dle (Num 0) (fps d) \<and> dle (Num 0) (latency d) \<and> dle (Num 0) (cpuUsage d))"

text \<open>The exact model is the model over doubles without rounding; this embeds its samples.\<close>

definition to_double :: "number PerformanceData \<Rightarrow> double PerformanceData" where
  "to_double d = \<lparr>fps = Num (fps d), latency = Num (latency d), cpuUsage = Num (cpuUsage d),
     memoryUsage = Num (memoryUsage d), frameDrops = Num (frameDrops d),
     networkLatency = Num (networkLatency d), processingTime = Num (processingTime d),
     timestamp = Num (timestamp d)\<rparr>"

definition of_result :: "number option \<Rightarrow> double" where
  "of_result r = (case r of None \<Rightarrow> NaN | Some x \<Rightarrow> Num x)"

section \<open>RecordingStudio.tsx: formatFileSize\<close>

text \<open>Decimal digits, and the decimal numeral of a natural number.\<close>

definition digit_char :: "nat \<Rightarrow> char" where
  "digit_char d = ''0123456789'' ! d"

definition is_digit :: "char \<Rightarrow> bool" where
  "is_digit c = (c \<in> set ''0123456789'')"

definition digit_val :: "char \<Rightarrow> nat" where
  "digit_val c = length (takeWhile (\<lambda>d. d \<noteq> c) ''0123456789'')"

fun decimal :: "nat \<Rightarrow> string" where
  "decimal n = (if n < 10 then [digit_char n] else decimal (n div 10) @ [digit_char (n mod 10)])"

declare decimal.simps [simp del]

definition read_decimal :: "string \<Rightarrow> nat" where
  "read_decimal ds = foldl (\<lambda>acc c. 10 * acc + digit_val c) 0 ds"

text \<open>
  \<open>x.toFixed(2)\<close> for a number \<open>0 \<le> x < 10\<^sup>2\<^sup>1\<close>: with \<open>n\<close> the integer for which \<open>n / 100\<close>
  is nearest to \<open>x\<close> (the larger one on a tie), the digits of \<open>n\<close> with a point before the
  last two.
\<close>

definition toFixed2 :: "number \<Rightarrow> string" where
  "toFixed2 x =
     (let n = nat \<lfloor>x * 100 + 1 / 2\<rfloor>
      in decimal (n div 100) @ ''.'' @ [digit_char (n mod 100 div 10), digit_char (n mod 10)])"

text \<open>
  \<open>parseFloat\<close> on the longest prefix of the form digits, point, digits (either digit string
  may be empty, not both); \<open>None\<close> is \<open>NaN\<close>. Leading white space, a sign, an exponent and
  \<open>Infinity\<close> are left out: \<open>toFixed2\<close> produces none of them.
\<close>

definition parseFloat :: "string \<Rightarrow> number option" where
  "parseFloat s =
     (let ip = takeWhile is_digit s;
          rest = dropWhile is_digit s;
          fp = (case rest of [] \<Rightarrow> [] | c # r \<Rightarrow> if c = CHR ''.'' then takeWhile is_digit r else [])
      in if ip = [] \<and> fp = [] then None
         else Some (of_nat (read_decimal ip) + of_nat (read_decimal fp) / 10 ^ length fp))"

text \<open>
  The string of a number in a concatenation \<open>number + ' '\<close>, for a non-negative number with
  at most two decimals below \<open>10\<^sup>2\<^sup>1\<close>: the shortest decimal, so without trailing zeros and
  without a point when the number is whole.
\<close>

definition Number_toString :: "number \<Rightarrow> string" where
  "Number_toString x =
     (let n = nat \<lfloor>x * 100\<rfloor>; d1 = n mod 100 div 10; d2 = n mod 10
      in decimal (n div 100) @
         (if d1 = 0 \<and> d2 = 0 then []
          else CHR ''.'' # digit_char d1 # (if d2 = 0 then [] else [digit_char d2])))"

definition sizes :: "string list" where
  "sizes = [''Bytes'', ''KB'', ''MB'', ''GB'']"

text \<open>\<open>sizes[i]\<close> in a string concatenation: an index past the array reads \<open>undefined\<close>.\<close>

definition sizes_at :: "nat \<Rightarrow> string" where
  "sizes_at i = (if i < length sizes then sizes ! i else ''undefined'')"

text \<open>\<open>Math.floor(Math.log(bytes) / Math.log(k))\<close> with \<open>k = 1024\<close>, for \<open>bytes \<ge> 1\<close>.\<close>

definition unit_index :: "nat \<Rightarrow> nat" where
  "unit_index bytes = nat \<lfloor>ln (real bytes) / ln 1024\<rfloor>"

text \<open>The argument is a byte count (\<open>blob.size\<close>), a natural number.\<close>

definition formatFileSize :: "nat \<Rightarrow> string" where
  "formatFileSize bytes =
     (if bytes = 0 then ''0 Bytes''
      else let k = 1024; i = unit_index bytes
           in (case parseFloat (toFixed2 (real bytes / k ^ i)) of
                 None \<Rightarrow> ''NaN''
               | Some v \<Rightarrow> Number_toString v) @ '' '' @ sizes_at i)"

text \<open>
  The byte value a formatted size stands for: its numeric prefix, up to the space, scaled
  by its unit, one of Bytes, KB, MB and GB to the base 1024. A string with another unit
  or without a numeric prefix stands for no byte value.
\<close>

definition unit_factor :: "string \<Rightarrow> nat option" where
  "unit_factor u =
     (if u = ''Bytes'' then Some 1
      else if u = ''KB'' then Some 1024
      else if u = ''MB'' then Some (1024 ^ 2)
      else if u = ''GB'' then Some (1024 ^ 3)
      else None)"

definition representedBytes :: "string \<Rightarrow> number option" where
  "representedBytes s =
     (let numeric = takeWhile (\<lambda>c. c \<noteq> CHR '' '') s;
          unit = drop 1 (dropWhile (\<lambda>c. c \<noteq> CHR '' '') s)
      in case parseFloat numeric of
           None \<Rightarrow> None
         | Some v \<Rightarrow> (case unit_factor unit of None \<Rightarrow> None | Some f \<Rightarrow> Some (v * of_nat f)))"

text \<open>
  Two notions for the proofs: the number a formatted size shows, in hundredths, and the
  order of two byte counts by the byte values their formatted sizes stand for.
\<close>

definition hundredths :: "nat \<Rightarrow> nat" where
  "hundredths bytes = nat \<lfloor>real bytes / 1024 ^ unit_index bytes * 100 + 1 / 2\<rfloor>"

definition represented_le :: "nat \<Rightarrow> nat \<Rightarrow> bool" where
  "represented_le a b =
     (case representedBytes (formatFileSize a) of
        None \<Rightarrow> False
      | Some va \<Rightarrow> (case representedBytes (formatFileSize b) of
                     None \<Rightarrow> False
                   | Some vb \<Rightarrow> va \<le> vb))"

section \<open>RecordingStudio.tsx: the recording subsystem\<close>

text \<open>
  An entry of the catalog. \<open>id\<close>, \<open>name\<close>, \<open>size\<close> and \<open>timestamp\<close> carry a prefix, the
  plain names being taken. The platform's values, \<open>Date.now()\<close>, the ISO string of the
  date and the object URL of the blob, come in from outside as a \<open>Clock\<close>.
\<close>

record Recording =
  rec_id :: string
  rec_name :: string
  duration :: nat
  rec_size :: string
  rec_timestamp :: nat
  thumbnail :: string

record Clock =
  now :: nat
  iso :: string
  url :: string

text \<open>
  The \<open>MediaRecorder\<close> built by \<open>startRecording\<close>. Its \<open>onstop\<close> handler is a closure made
  inside that call of \<open>startRecording\<close>, and the \<open>recordingTime\<close> it reads is the constant
  of the render that produced this \<open>startRecording\<close> (\<open>useCallback\<close> with \<open>recordingTime\<close>
  among its dependencies): the value of the state when the recording was started, kept in
  \<open>onstop_recordingTime\<close>. The chunks are read through a ref and are current.
\<close>

datatype RecorderState = inactive | recording

record MediaRecorder =
  recorder_state :: RecorderState
  onstop_recordingTime :: nat

text \<open>
  The component's state and refs. A chunk is kept as the size of its blob.
  \<open>timerRunning\<close> says that the interval held in \<open>recordingIntervalRef\<close> is running; the
  button that starts a recording is shown only while none is running, so no second
  interval is started beside it.
\<close>

record Studio =
  isRecording :: bool
  recordingTime :: nat
  recordings :: "Recording list"
  mediaRecorderRef :: "MediaRecorder option"
  recordedChunksRef :: "nat list"
  timerRunning :: bool

definition initial_studio :: Studio where
  "initial_studio = \<lparr>isRecording = False, recordingTime = 0, recordings = [],
     mediaRecorderRef = None, recordedChunksRef = [], timerRunning = False\<rparr>"

text \<open>
  \<open>startRecording\<close>, called from the button of the current render. \<open>canvas\<close> says whether
  \<open>canvasRef.current\<close> is set, \<open>supported\<close> whether \<open>captureStream\<close> and the
  \<open>MediaRecorder\<close> constructor succeed; when they throw, the error is logged to the
  console and nothing else happens.
\<close>

definition startRecording :: "bool \<Rightarrow> bool \<Rightarrow> Studio \<Rightarrow> Studio" where
  "startRecording canvas supported s =
     (if \<not> canvas then s
      else if \<not> supported then s
      else s\<lparr>recordedChunksRef := [],
             mediaRecorderRef :=
               Some \<lparr>recorder_state = recording, onstop_recordingTime = recordingTime s\<rparr>,
             isRecording := True,
             recordingTime := 0,
             timerRunning := True\<rparr>)"

text \<open>\<open>mediaRecorder.ondataavailable\<close>, with the size of \<open>event.data\<close>.\<close>

definition ondataavailable :: "nat \<Rightarrow> Studio \<Rightarrow> Studio" where
  "ondataavailable data_size s =
     (if data_size > 0 then s\<lparr>recordedChunksRef := recordedChunksRef s @ [data_size]\<rparr> else s)"

text \<open>The interval's callback, once a second while the interval runs.\<close>

definition tick :: "Studio \<Rightarrow> Studio" where
  "tick s = (if timerRunning s then s\<lparr>recordingTime := recordingTime s + 1\<rparr> else s)"

text \<open>
  \<open>stopRecording\<close>: \<open>mediaRecorder.stop()\<close> makes the recorder inactive; its last
  \<open>dataavailable\<close> and its \<open>stop\<close> event follow as events of their own.
\<close>

definition stopRecording :: "Studio \<Rightarrow> Studio" where
  "stopRecording s =
     (case mediaRecorderRef s of
        None \<Rightarrow> s
      | Some r \<Rightarrow>
          if isRecording s
          then s\<lparr>mediaRecorderRef := Some (r\<lparr>recorder_state := inactive\<rparr>),
                 isRecording := False,
                 timerRunning := False\<rparr>
          else s)"

text \<open>\<open>Recording_\<close> and the first 19 characters of the ISO date, every colon a hyphen.\<close>

definition recording_name :: "string \<Rightarrow> string" where
  "recording_name iso_string =
     ''Recording_'' @ map (\<lambda>c. if c = CHR '':'' then CHR ''-'' else c) (take 19 iso_string)"

text \<open>
  \<open>mediaRecorder.onstop\<close> of the recorder \<open>r\<close>: the blob of all chunks has the sum of their
  sizes, and the new entry goes in front of the catalog.
\<close>

definition onstop :: "MediaRecorder \<Rightarrow> Clock \<Rightarrow> Studio \<Rightarrow> Studio" where
  "onstop r clock s =
     (let blob_size = sum_list (recordedChunksRef s);
          newRecording = \<lparr>rec_id = decimal (now clock),
                          rec_name = recording_name (iso clock),
                          duration = onstop_recordingTime r,
                          rec_size = formatFileSize blob_size,
                          rec_timestamp = now clock,
                          thumbnail = url clock\<rparr>
      in s\<lparr>recordings := newRecording # recordings s\<rparr>)"

text \<open>
  The events of a recording, and a run of them. The \<open>stop\<close> event is the one of the
  recorder in \<open>mediaRecorderRef\<close>, and comes only once that recorder is inactive.
\<close>

datatype StudioEvent =
    StartRecording
  | DataAvailable nat
  | Tick
  | StopRecording
  | RecorderStopped Clock

fun studio_step :: "Studio \<Rightarrow> StudioEvent \<Rightarrow> Studio" where
  "studio_step s StartRecording = startRecording True True s"
| "studio_step s (DataAvailable n) = ondataavailable n s"
| "studio_step s Tick = tick s"
| "studio_step s StopRecording = stopRecording s"
| "studio_step s (RecorderStopped clock) =
     (case mediaRecorderRef s of
        None \<Rightarrow> s
      | Some r \<Rightarrow> if recorder_state r = inactive then onstop r clock s else s)"

definition studio_run :: "Studio \<Rightarrow> StudioEvent list \<Rightarrow> Studio" where
  "studio_run s evs = foldl studio_step s evs"

text \<open>
  The finalize scenario: start, three one-second segments of the given sizes with a tick
  of the timer after each, stop, the recorder's last chunk of size \<open>rest\<close>, and its \<open>stop\<close>
  event.
\<close>

definition finalize_scenario :: "nat \<Rightarrow> nat \<Rightarrow> nat \<Rightarrow> nat \<Rightarrow> Clock \<Rightarrow> StudioEvent list" where
  "finalize_scenario c1 c2 c3 rest clock =
     [StartRecording, DataAvailable c1, Tick, DataAvailable c2, Tick, DataAvailable c3, Tick,
      StopRecording, DataAvailable rest, RecorderStopped clock]"

definition example_clock :: Clock where
  "example_clock = \<lparr>now = 1700000000000, iso = ''2023-11-14T22:13:20.000Z'', url = ''blob:1''\<rparr>"

section \<open>The page component: connection manager and capture loop\<close>

text \<open>
  The model keeps the refs and the state the connection and capture code reads or writes
  for control, and the objects of the platform this code creates: the sockets, the pending
  timeouts, the images that are loading and the frames handed to \<open>send\<close>. Values that are
  only displayed (fps, bitrate, latency, quality, server version and load, the performance
  metrics, the subscription tier) are left out, and so are the pixels of the canvas.

  A callback made by \<open>useCallback\<close> sees the state of the render that made it, not the
  state at the time it runs. Where the code reads such a captured value, the model passes
  it as an argument or stores it with the object that holds the closure.
\<close>

datatype LogCategory = info | error | success | warning

datatype ReadyState = CONNECTING | OPEN | CLOSING | CLOSED

text \<open>
  A \<open>WebSocket\<close> made by \<open>connectWebSocket\<close>. Its \<open>onclose\<close> handler reads
  \<open>streamState.isStreaming\<close> of the render that made that \<open>connectWebSocket\<close>
  (\<open>useCallback\<close> with \<open>streamState.isStreaming\<close> among its dependencies); the value is
  kept in \<open>onclose_isStreaming\<close>.
\<close>

record WebSocket =
  readyState :: ReadyState
  onclose_isStreaming :: bool

text \<open>The frame message given to \<open>send\<close>, without its settings.\<close>

record FrameMessage =
  frame_data :: string
  frame_timestamp :: nat

record Home =
  wsRef :: "nat option"
  processingRef :: bool
  videoMounted :: bool
  video_readyState :: nat
  canvasMounted :: bool
  isStreaming :: bool
  isProcessing :: bool
  isConnected :: bool
  isConnecting :: bool
  reconnectCount :: nat
  processedFrames :: nat
  logs :: "(LogCategory \<times> string) list"
  sockets :: "WebSocket list"
  timeouts :: "(nat \<times> bool) list"
  loadingImages :: nat
  sent :: "(nat \<times> FrameMessage) list"
  inFlight :: nat

text \<open>
  \<open>wsRef\<close> holds the index of a socket in \<open>sockets\<close>, the list of all sockets made so far.
  A pending timeout is its delay in milliseconds with the \<open>isStreaming\<close> captured by the
  \<open>connectWebSocket\<close> it will call. \<open>sent\<close> pairs each frame with the socket it was sent
  on. \<open>inFlight\<close> is a history variable, not a variable of the code: the number of frames
  handed to \<open>send\<close> since \<open>processingRef.current\<close> was last set to \<open>false\<close>.
\<close>

definition initial_home :: Home where
  "initial_home = \<lparr>wsRef = None, processingRef = False, videoMounted = True,
     video_readyState = 0, canvasMounted = True, isStreaming = False, isProcessing = False,
     isConnected = False, isConnecting = False, reconnectCount = 0, processedFrames = 0,
     logs = [], sockets = [], timeouts = [], loadingImages = 0, sent = [], inFlight = 0\<rparr>"

text \<open>
  \<open>addLog\<close> keeps the last seven entries and appends the new one. An entry is the
  message with its category; the time of day and the emoji in front are left out, and so
  is the text of an interpolated value that the model does not hold.
\<close>

definition addLog :: "string \<Rightarrow> LogCategory \<Rightarrow> Home \<Rightarrow> Home" where
  "addLog message category s = s\<lparr>logs := slice_last 7 (logs s) @ [(category, message)]\<rparr>"

text \<open>\<open>wsRef.current?.readyState\<close>\<close>

definition ws_readyState :: "Home \<Rightarrow> ReadyState option" where
  "ws_readyState s =
     (case wsRef s of
        None \<Rightarrow> None
      | Some k \<Rightarrow> if k < length (sockets s) then Some (readyState (sockets s ! k)) else None)"

text \<open>Every assignment \<open>processingRef.current = false\<close> goes through \<open>clear_gate\<close>.\<close>

definition clear_gate :: "Home \<Rightarrow> Home" where
  "clear_gate s = s\<lparr>processingRef := False, inFlight := 0\<rparr>"

text \<open>
  \<open>connectWebSocket\<close> of a render in which \<open>streamState.isStreaming\<close> was \<open>captured\<close>.
\<close>

definition connectWebSocket :: "bool \<Rightarrow> Home \<Rightarrow> Home" where
  "connectWebSocket captured s =
     (if ws_readyState s = Some OPEN then s
      else let s1 = s\<lparr>isConnecting := True\<rparr>;
               s2 = addLog ''Connecting to VirtualStage Engine...'' info s1;
               ws = \<lparr>readyState = CONNECTING, onclose_isStreaming = captured\<rparr>
           in s2\<lparr>sockets := sockets s2 @ [ws], wsRef := Some (length (sockets s2))\<rparr>)"

definition ws_onopen :: "Home \<Rightarrow> Home" where
  "ws_onopen s =
     addLog ''VirtualStage Engine connected successfully'' success
       (s\<lparr>isConnected := True, isConnecting := False, reconnectCount := 0\<rparr>)"

text \<open>\<open>ws.onclose\<close> of the socket \<open>ws\<close>.\<close>

definition ws_onclose :: "WebSocket \<Rightarrow> Home \<Rightarrow> Home" where
  "ws_onclose ws s =
     (let s1 = s\<lparr>isConnected := False, isConnecting := False\<rparr>;
          s2 = addLog ''Engine connection lost'' warning s1
      in if onclose_isStreaming ws
         then s2\<lparr>timeouts := timeouts s2 @ [(3000, onclose_isStreaming ws)]\<rparr>
         else s2)"

text \<open>The callback of that timeout.\<close>

definition reconnect_timeout :: "bool \<Rightarrow> Home \<Rightarrow> Home" where
  "reconnect_timeout captured s =
     connectWebSocket captured (s\<lparr>reconnectCount := reconnectCount s + 1\<rparr>)"

definition ws_onerror :: "Home \<Rightarrow> Home" where
  "ws_onerror s =
     (addLog ''Failed to connect to engine (localhost:8000)'' error s)
       \<lparr>isConnected := False, isConnecting := False\<rparr>"

text \<open>
  A parsed message; an object is the list of its properties, each name once.
  \<open>JSON.parse\<close> itself is a parameter \<open>JSON_parse\<close> of the model, \<open>None\<close> when it throws
  a \<open>SyntaxError\<close>.
\<close>

datatype json =
    JNull
  | JBool bool
  | JNumber number
  | JString string
  | JArray "json list"
  | JObject "(string \<times> json) list"

datatype exn = SyntaxError | TypeError

definition exn_text :: "exn \<Rightarrow> string" where
  "exn_text e = (case e of SyntaxError \<Rightarrow> ''SyntaxError'' | TypeError \<Rightarrow> ''TypeError'')"

text \<open>
  \<open>data.field\<close>: reading a property of \<open>null\<close> throws, a primitive or an array has none of
  the fields read here, a missing field is \<open>undefined\<close> (\<open>None\<close>).
\<close>

definition get_field :: "json \<Rightarrow> string \<Rightarrow> exn + json option" where
  "get_field data field =
     (case data of
        JNull \<Rightarrow> Inl TypeError
      | JObject members \<Rightarrow> Inr (map_of members field)
      | _ \<Rightarrow> Inr None)"

definition truthy :: "json option \<Rightarrow> bool" where
  "truthy v =
     (case v of
        None \<Rightarrow> False
      | Some JNull \<Rightarrow> False
      | Some (JBool b) \<Rightarrow> b
      | Some (JNumber n) \<Rightarrow> n \<noteq> 0
      | Some (JString t) \<Rightarrow> t \<noteq> []
      | Some _ \<Rightarrow> True)"

text \<open>The text of a field inside a template string, for the fields that are strings.\<close>

definition field_text :: "json option \<Rightarrow> string" where
  "field_text v = (case v of Some (JString t) \<Rightarrow> t | None \<Rightarrow> ''undefined'' | _ \<Rightarrow> ''[value]'')"

text \<open>
  \<open>handleWebSocketMessage\<close>. For a processed frame with a canvas and image data an
  \<open>Image\<close> starts to load; its \<open>onload\<close> handler runs later, if the data decodes. A
  performance update changes the metrics only, which are not part of the model.
\<close>

definition handleWebSocketMessage :: "json \<Rightarrow> Home \<Rightarrow> exn + Home" where
  "handleWebSocketMessage data s =
     (case get_field data ''type'' of
        Inl e \<Rightarrow> Inl e
      | Inr ty \<Rightarrow>
          if ty = Some (JString ''processed_frame'') then
            (case get_field data ''data'' of
               Inl e \<Rightarrow> Inl e
             | Inr d \<Rightarrow>
                 if canvasMounted s \<and> truthy d
                 then Inr (s\<lparr>loadingImages := loadingImages s + 1\<rparr>)
                 else Inr s)
          else if ty = Some (JString ''background_changed'') then
            (case get_field data ''background'' of
               Inl e \<Rightarrow> Inl e
             | Inr b \<Rightarrow> Inr (addLog (''Background switched to: '' @ field_text b) success s))
          else if ty = Some (JString ''error'') then
            (case get_field data ''message'' of
               Inl e \<Rightarrow> Inl e
             | Inr m \<Rightarrow> Inr (addLog (''Engine Error: '' @ field_text m) error s))
          else Inr s)"

text \<open>
  \<open>img.onload\<close>: draws the frame, clears the in-flight gate and counts the frame.
\<close>

definition img_onload :: "Home \<Rightarrow> Home" where
  "img_onload s = (clear_gate s)\<lparr>processedFrames := processedFrames s + 1\<rparr>"

text \<open>
  \<open>ws.onmessage\<close>: the \<open>try\<close> block, then the handler with its \<open>catch\<close>. The result says
  whether the handler itself ends with an exception.
\<close>

definition onmessage_try :: "(string \<Rightarrow> json option) \<Rightarrow> string \<Rightarrow> Home \<Rightarrow> exn + Home" where
  "onmessage_try JSON_parse raw s =
     (case JSON_parse raw of
        None \<Rightarrow> Inl SyntaxError
      | Some data \<Rightarrow> handleWebSocketMessage data s)"

definition ws_onmessage :: "(string \<Rightarrow> json option) \<Rightarrow> string \<Rightarrow> Home \<Rightarrow> exn + Home" where
  "ws_onmessage JSON_parse raw s =
     (case onmessage_try JSON_parse raw s of
        Inl e \<Rightarrow> Inr (addLog (''Message parsing failed: '' @ exn_text e) error s)
      | Inr s' \<Rightarrow> Inr s')"

text \<open>
  What the platform does during one call of \<open>sendFrameToBackend\<close>: no 2d context, an
  exception from \<open>drawImage\<close> or \<open>toDataURL\<close>, the encoded frame (the part of the data URL
  after the comma), or the encoded frame and an exception from \<open>send\<close>.
\<close>

datatype Capture = NoContext | CaptureThrows | Encoded string | SendThrows string

text \<open>
  \<open>sendFrameToBackend\<close>, with \<open>time\<close> the value of \<open>Date.now()\<close>. The gate is set before
  the message is built and sent; the \<open>catch\<close> logs and clears the gate.
\<close>

definition sendFrameToBackend :: "Capture \<Rightarrow> nat \<Rightarrow> Home \<Rightarrow> Home" where
  "sendFrameToBackend capture time s =
     (case wsRef s of
        None \<Rightarrow> s
      | Some k \<Rightarrow>
          if ws_readyState s \<noteq> Some OPEN \<or> \<not> videoMounted s \<or> processingRef s then s
          else if video_readyState s \<noteq> 4 then s
          else (case capture of
                  NoContext \<Rightarrow> s
                | CaptureThrows \<Rightarrow> clear_gate (addLog ''Frame processing error'' error s)
                | Encoded frameData \<Rightarrow>
                    (let s1 = s\<lparr>processingRef := True\<rparr>;
                         message = \<lparr>frame_data = frameData, frame_timestamp = time\<rparr>
                     in s1\<lparr>sent := sent s1 @ [(k, message)], inFlight := inFlight s1 + 1\<rparr>)
                | SendThrows frameData \<Rightarrow>
                    (let s1 = s\<lparr>processingRef := True\<rparr>
                     in clear_gate (addLog ''Frame processing error'' error s1))))"

text \<open>
  One cycle of the loop of \<open>startProcessingLoop\<close>; both flags are the ones captured by the
  loop. The fps counter is left out.
\<close>

definition loop_cycle :: "bool \<Rightarrow> bool \<Rightarrow> Capture \<Rightarrow> nat \<Rightarrow> Home \<Rightarrow> Home" where
  "loop_cycle captured_isStreaming captured_isConnected capture time s =
     (if captured_isStreaming \<and> captured_isConnected then sendFrameToBackend capture time s
      else s)"

text \<open>\<open>ws.close()\<close> on the socket with index \<open>k\<close>.\<close>

definition ws_close :: "nat \<Rightarrow> Home \<Rightarrow> Home" where
  "ws_close k s =
     (if k < length (sockets s) \<and> readyState (sockets s ! k) \<in> {CONNECTING, OPEN}
      then s\<lparr>sockets := (sockets s)[k := (sockets s ! k)\<lparr>readyState := CLOSING\<rparr>]\<rparr>
      else s)"

text \<open>
  \<open>startCamera\<close> of a render in which \<open>streamState.isStreaming\<close> was \<open>captured\<close>: its
  \<open>connectWebSocket\<close> is the one of that render. The outcome says whether the tier check
  stops it, \<open>getUserMedia\<close> or \<open>play\<close> fails, or the camera starts.
\<close>

datatype CameraOutcome = TierBlocked | CameraFails | CameraStarts

definition startCamera :: "bool \<Rightarrow> CameraOutcome \<Rightarrow> Home \<Rightarrow> Home" where
  "startCamera captured outcome s =
     (let s1 = addLog ''Initializing professional camera stream...'' info s
      in case outcome of
           TierBlocked \<Rightarrow> addLog ''4K resolution requires Pro subscription'' warning s1
         | CameraFails \<Rightarrow> addLog ''Camera initialization failed'' error s1
         | CameraStarts \<Rightarrow>
             if videoMounted s1 then
               (let s2 = s1\<lparr>isStreaming := True, isProcessing := True\<rparr>;
                    s3 = connectWebSocket captured s2;
                    s4 = s3\<lparr>processedFrames := 0\<rparr>
                in addLog ''stream started successfully'' success s4)
             else s1)"

definition stopCamera :: "Home \<Rightarrow> Home" where
  "stopCamera s =
     (let s1 = addLog ''Stopping studio session...'' info s;
          s2 = (case wsRef s1 of None \<Rightarrow> s1 | Some k \<Rightarrow> ws_close k s1);
          s3 = clear_gate s2;
          s4 = s3\<lparr>isStreaming := False, isProcessing := False\<rparr>;
          s5 = s4\<lparr>processedFrames := 0\<rparr>
      in addLog ''Studio session ended successfully'' success s5)"

text \<open>
  The events of the page: the buttons (each calls the callback of the current render, so
  the captured flag is the current one), the events of a socket given by its index, the
  end of an image load, the first pending timeout, a change of the video element's ready
  state, and one cycle of a processing loop with the flags it captured.
\<close>

datatype Event =
    ClickConnect
  | ClickReconnect
  | ClickStart CameraOutcome
  | ClickStop
  | SocketOpens nat
  | SocketMessage nat string
  | SocketError nat
  | SocketCloses nat
  | ImageLoads
  | ImageFails
  | TimeoutFires
  | VideoState nat
  | AnimationFrame bool bool Capture nat

definition set_readyState :: "nat \<Rightarrow> ReadyState \<Rightarrow> Home \<Rightarrow> Home" where
  "set_readyState k r s = s\<lparr>sockets := (sockets s)[k := (sockets s ! k)\<lparr>readyState := r\<rparr>]\<rparr>"

fun step :: "(string \<Rightarrow> json option) \<Rightarrow> Home \<Rightarrow> Event \<Rightarrow> Home" where
  "step JSON_parse s ClickConnect = connectWebSocket (isStreaming s) s"
| "step JSON_parse s ClickReconnect =
     connectWebSocket (isStreaming s)
       (case wsRef s of
          None \<Rightarrow> s
        | Some k \<Rightarrow> if ws_readyState s = Some OPEN then ws_close k s else s)"
| "step JSON_parse s (ClickStart outcome) = startCamera (isStreaming s) outcome s"
| "step JSON_parse s ClickStop = stopCamera s"
| "step JSON_parse s (SocketOpens k) =
     (if k < length (sockets s) \<and> readyState (sockets s ! k) = CONNECTING
      then ws_onopen (set_readyState k OPEN s) else s)"
| "step JSON_parse s (SocketMessage k raw) =
     (if k < length (sockets s) \<and> readyState (sockets s ! k) = OPEN
      then (case ws_onmessage JSON_parse raw s of Inl e \<Rightarrow> s | Inr s' \<Rightarrow> s') else s)"
| "step JSON_parse s (SocketError k) =
     (if k < length (sockets s) \<and> readyState (sockets s ! k) \<noteq> CLOSED
      then ws_onerror s else s)"
| "step JSON_parse s (SocketCloses k) =
     (if k < length (sockets s) \<and> readyState (sockets s ! k) \<noteq> CLOSED
      then ws_onclose (sockets s ! k) (set_readyState k CLOSED s) else s)"
| "step JSON_parse s ImageLoads =
     (if loadingImages s > 0 then img_onload (s\<lparr>loadingImages := loadingImages s - 1\<rparr>) else s)"
| "step JSON_parse s ImageFails =
     (if loadingImages s > 0 then s\<lparr>loadingImages := loadingImages s - 1\<rparr> else s)"
| "step JSON_parse s TimeoutFires =
     (case timeouts s of
        [] \<Rightarrow> s
      | (delay, captured) # rest \<Rightarrow> reconnect_timeout captured (s\<lparr>timeouts := rest\<rparr>))"
| "step JSON_parse s (VideoState n) = s\<lparr>video_readyState := n\<rparr>"
| "step JSON_parse s (AnimationFrame captured_isStreaming captured_isConnected capture time) =
     loop_cycle captured_isStreaming captured_isConnected capture time s"

definition run :: "(string \<Rightarrow> json option) \<Rightarrow> Home \<Rightarrow> Event list \<Rightarrow> Home" where
  "run JSON_parse s evs = foldl (step JSON_parse) s evs"

text \<open>
  The in-flight gate and its history variable agree: at most one frame is counted, and
  none while the gate is clear.
\<close>

definition gate_invariant :: "Home \<Rightarrow> bool" where
  "gate_invariant s = (if processingRef s then inFlight s \<le> 1 else inFlight s = 0)"

text \<open>A parser for the examples: it accepts one error message and nothing else.\<close>

definition example_parse :: "string \<Rightarrow> json option" where
  "example_parse raw =
     (if raw = ''{\"type\":\"error\",\"message\":\"busy\"}''
      then Some (JObject [(''type'', JString ''error''), (''message'', JString ''busy'')])
      else None)"

text \<open>Example runs of the page, from the first render.\<close>

definition connected_run :: "Event list" where
  "connected_run = [ClickConnect, SocketOpens 0]"

definition streaming_run :: "Event list" where
  "streaming_run = connected_run @ [ClickStart CameraStarts, VideoState 4]"

definition first_frame_run :: "Event list" where
  "first_frame_run = streaming_run @ [AnimationFrame True True (Encoded ''frame1'') 10]"

definition lost_while_streaming :: "Event list" where
  "lost_while_streaming = streaming_run @ [SocketCloses 0]"

definition stopped_after_reconnect :: "Event list" where
  "stopped_after_reconnect =
     lost_while_streaming @ [ClickConnect, SocketOpens 1, ClickStop, SocketCloses 1]"

section \<open>Properties of the composite score\<close>

lemma slice_last_append:
  "length w = n \<Longrightarrow> slice_last n (older @ w) = w"
  by (simp add: slice_last_def)

lemma slice_last_nonempty:
  "xs \<noteq> [] \<Longrightarrow> 0 < n \<Longrightarrow> slice_last n xs \<noteq> []"
  by (cases xs) (auto simp: slice_last_def)

lemma foldl_sum_shift:
  "foldl (\<lambda>sum d. sum + f d) a xs = a + foldl (\<lambda>sum d. sum + f d) 0 xs"
  for a :: number
proof (induction xs arbitrary: a)
  case Nil
  show ?case by simp
next
  case (Cons x xs)
  have "foldl (\<lambda>sum d. sum + f d) (a + f x) xs = (a + f x) + foldl (\<lambda>sum d. sum + f d) 0 xs"
    by (rule Cons.IH)
  moreover have "foldl (\<lambda>sum d. sum + f d) (0 + f x) xs = (0 + f x) + foldl (\<lambda>sum d. sum + f d) 0 xs"
    by (rule Cons.IH)
  ultimately show ?case by simp
qed

lemma foldl_sum_const:
  "\<forall>d \<in> set xs. f d = c \<Longrightarrow> foldl (\<lambda>sum d. sum + f d) 0 xs = of_nat (length xs) * c"
  for c :: number
proof (induction xs)
  case Nil
  show ?case by simp
next
  case (Cons x xs)
  then have "foldl (\<lambda>sum d. sum + f d) 0 xs = of_nat (length xs) * c" by simp
  moreover have "f x = c" using Cons.prems by simp
  ultimately show ?case
    using foldl_sum_shift [of f "f x" xs] by (simp add: algebra_simps)
qed

lemma average_const:
  assumes "xs \<noteq> []" and "\<forall>d \<in> set xs. f d = c"
  shows "average f xs = Some c"
proof -
  have "foldl (\<lambda>sum d. sum + f d) 0 xs = of_nat (length xs) * c"
    using assms(2) by (rule foldl_sum_const)
  moreover have "real (length xs) \<noteq> 0" using assms(1) by simp
  ultimately show ?thesis using assms(1) by (simp add: average_def)
qed

lemma average_defined:
  "xs \<noteq> [] \<Longrightarrow> \<exists>a. average f xs = Some a"
  by (simp add: average_def)

text \<open>
  Claim C4. When the scored window, the last ten samples of the list, holds ten samples that
  all have \<open>fps = 30\<close>, \<open>latency = 0\<close> and \<open>cpuUsage = 0\<close>, \<open>getPerformanceScore\<close> returns
  exactly 100 and \<open>getPerformanceGrade\<close> maps that score to the grade \<open>A+\<close>, whatever
  older samples precede the window.
\<close>

theorem score_full_marks:
  assumes "length w = 10"
    and "\<forall>d \<in> set w. fps d = 30 \<and> latency d = 0 \<and> cpuUsage d = 0"
  shows "getPerformanceScore (older @ w) = Some 100 \<and> shown_grade (older @ w) = Some ''A+''"
proof -
  have ne: "w \<noteq> []" using assms(1) by auto
  have r: "slice_last 10 (older @ w) = w" using assms(1) by (rule slice_last_append)
  have "average fps w = Some 30" using ne assms(2) by (intro average_const) auto
  moreover have "average latency w = Some 0" using ne assms(2) by (intro average_const) auto
  moreover have "average cpuUsage w = Some 0" using ne assms(2) by (intro average_const) auto
  ultimately have "getPerformanceScore (older @ w) = Some 100"
    using ne by (simp add: getPerformanceScore_def r fpsScore_def latencyScore_def cpuScore_def
        stabilityScore_def Math_round_def)
  then show ?thesis by (simp add: shown_grade_def getPerformanceGrade_def)
qed

theorem score_full_marks_witness:
  "length (replicate 10 (sample 30 0 0)) = 10 \<and>
   list_all (\<lambda>d. fps d = 30 \<and> latency d = 0 \<and> cpuUsage d = 0) (replicate 10 (sample 30 0 0)) \<and>
   getPerformanceScore ([sample 12 250 90] @ replicate 10 (sample 30 0 0)) = Some 100 \<and>
   shown_grade ([sample 12 250 90] @ replicate 10 (sample 30 0 0)) = Some ''A+''"
  using score_full_marks [of "replicate 10 (sample 30 0 0)" "[sample 12 250 90]"]
  by (simp add: sample_def list_all_iff)

subsection \<open>The range of the score over doubles\<close>

lemma in_range_Num [simp]: "in_range lo hi (Num x) = (lo \<le> x \<and> x \<le> hi)"
  by (simp add: in_range_def)

lemma in_rangeE:
  assumes "in_range lo hi v"
  obtains x where "v = Num x" "lo \<le> x" "x \<le> hi"
  using assms by (cases v) (simp_all add: in_range_def)

lemma nonneg_cases [consumes 1]:
  assumes "dle (Num 0) v"
  obtains (num) x where "v = Num x" "0 \<le> x" | (inf) "v = PInf"
  using assms by (cases v) simp_all

lemma rnd_nonneg:
  assumes "ieee_rounding rnd" and "0 \<le> x"
  shows "dle (Num 0) (rnd x)"
proof -
  have "rnd (of_int 0) = Num (of_int 0)"
    using assms(1) unfolding ieee_rounding_def by (metis abs_zero zero_le_numeral zero_le_power)
  then have "rnd 0 = Num 0" by simp
  moreover have "dle (rnd 0) (rnd x)" using assms unfolding ieee_rounding_def by blast
  ultimately show ?thesis by simp
qed

lemma rnd_at_most:
  assumes "ieee_rounding rnd" and "x \<le> of_int n" and "\<bar>n\<bar> \<le> 2 ^ 53"
  shows "dle (rnd x) (Num (of_int n))"
proof -
  have "rnd (of_int n) = Num (of_int n)" using assms(1,3) unfolding ieee_rounding_def by blast
  moreover have "dle (rnd x) (rnd (of_int n))"
    using assms(1,2) unfolding ieee_rounding_def by blast
  ultimately show ?thesis by simp
qed

lemma rnd_in_range:
  assumes "ieee_rounding rnd" and "0 \<le> x" and "x \<le> of_int n" and "\<bar>n\<bar> \<le> 2 ^ 53"
  shows "in_range 0 (of_int n) (rnd x)"
proof -
  have lo: "dle (Num 0) (rnd x)" using assms(1,2) by (rule rnd_nonneg)
  have hi: "dle (rnd x) (Num (of_int n))" using assms(1,3,4) by (rule rnd_at_most)
  show ?thesis using lo hi by (cases "rnd x") simp_all
qed

lemma d_add_nonneg:
  assumes "ieee_rounding rnd" and "dle (Num 0) a" and "dle (Num 0) b"
  shows "dle (Num 0) (d_add rnd a b)"
  using assms(2)
proof (cases rule: nonneg_cases)
  case (num x)
  show ?thesis using assms(3)
  proof (cases rule: nonneg_cases)
    case (num y)
    then show ?thesis using \<open>a = Num x\<close> \<open>0 \<le> x\<close> rnd_nonneg [OF assms(1), of "x + y"] by simp
  next
    case inf
    then show ?thesis using \<open>a = Num x\<close> by simp
  qed
next
  case inf
  then show ?thesis using assms(3) by (cases b) simp_all
qed

lemma sum_nonneg:
  assumes "ieee_rounding rnd" and "\<forall>d \<in> set xs. dle (Num 0) (f d)" and "dle (Num 0) a"
  shows "dle (Num 0) (foldl (\<lambda>sum d. d_add rnd sum (f d)) a xs)"
  using assms(2,3)
proof (induction xs arbitrary: a)
  case Nil
  then show ?case by simp
next
  case (Cons x xs)
  have "dle (Num 0) (d_add rnd a (f x))"
    using assms(1) Cons.prems by (intro d_add_nonneg) simp_all
  then show ?case using Cons.IH Cons.prems by simp
qed

lemma d_div_nonneg:
  assumes "ieee_rounding rnd" and "dle (Num 0) a" and "0 < c"
  shows "dle (Num 0) (d_div rnd a (Num c))"
  using assms(2)
proof (cases rule: nonneg_cases)
  case (num x)
  then show ?thesis using assms(3) rnd_nonneg [OF assms(1), of "x / c"] by simp
next
  case inf
  then show ?thesis using assms(3) by simp
qed

lemma average_nonneg:
  assumes "ieee_rounding rnd" and "recent \<noteq> []" and "\<forall>d \<in> set recent. dle (Num 0) (f d)"
  shows "dle (Num 0) (average_ieee rnd f recent)"
  unfolding average_ieee_def
  using assms by (intro d_div_nonneg sum_nonneg) simp_all

lemma times_25_in_range:
  assumes "ieee_rounding rnd" and "in_range 0 1 m"
  shows "in_range 0 25 (d_mul rnd m (Num 25))"
proof -
  obtain x where x: "m = Num x" "0 \<le> x" "x \<le> 1" using assms(2) by (rule in_rangeE)
  have "in_range 0 (of_int 25) (rnd (x * 25))"
    using assms(1) x(2,3) by (intro rnd_in_range) simp_all
  then show ?thesis using x(1) by simp
qed

lemma fpsScore_range:
  assumes "ieee_rounding rnd" and "dle (Num 0) a"
  shows "in_range 0 25 (fpsScore_ieee rnd a)"
proof -
  have q: "dle (Num 0) (d_div rnd a (Num 30))" using assms by (intro d_div_nonneg) simp_all
  have "in_range 0 1 (Math_min (d_div rnd a (Num 30)) (Num 1))"
    using q by (cases "d_div rnd a (Num 30)") (simp_all add: Math_min_def)
  then show ?thesis unfolding fpsScore_ieee_def using assms(1) by (intro times_25_in_range)
qed

lemma one_minus_at_most_one:
  assumes "ieee_rounding rnd" and "dle (Num 0) q"
  shows "dle (d_sub rnd (Num 1) q) (Num 1) \<and> d_sub rnd (Num 1) q \<noteq> NaN"
  using assms(2)
proof (cases rule: nonneg_cases)
  case (num x)
  have "dle (rnd (1 - x)) (Num (of_int 1))"
    using assms(1) \<open>0 \<le> x\<close> by (intro rnd_at_most) simp_all
  moreover have "rnd (1 - x) \<noteq> NaN" using assms(1) unfolding ieee_rounding_def by blast
  ultimately show ?thesis using \<open>q = Num x\<close> by (simp add: d_sub_def)
next
  case inf
  then show ?thesis by (simp add: d_sub_def)
qed

lemma penalty_range:
  assumes "ieee_rounding rnd" and "dle (Num 0) a"
  shows "in_range 0 25 (d_mul rnd (Math_max (Num 0) (d_sub rnd (Num 1) (d_div rnd a (Num 100)))) (Num 25))"
proof -
  let ?s = "d_sub rnd (Num 1) (d_div rnd a (Num 100))"
  have q: "dle (Num 0) (d_div rnd a (Num 100))" using assms by (intro d_div_nonneg) simp_all
  have s: "dle ?s (Num 1)" "?s \<noteq> NaN"
    using one_minus_at_most_one [OF assms(1) q] by simp_all
  have "in_range 0 1 (Math_max (Num 0) ?s)"
    using s by (cases ?s) (simp_all add: Math_max_def)
  then show ?thesis using assms(1) by (intro times_25_in_range)
qed

lemma d_add_in_range:
  assumes "ieee_rounding rnd" and "in_range 0 (of_int m) a" and "in_range lo (of_int n) b"
    and "0 \<le> lo" and "\<bar>m + n\<bar> \<le> 2 ^ 53"
  shows "in_range 0 (of_int (m + n)) (d_add rnd a b)"
proof -
  obtain x where x: "a = Num x" "0 \<le> x" "x \<le> of_int m" using assms(2) by (rule in_rangeE)
  obtain y where y: "b = Num y" "lo \<le> y" "y \<le> of_int n" using assms(3) by (rule in_rangeE)
  have "in_range 0 (of_int (m + n)) (rnd (x + y))"
    using assms(1,4,5) x(2,3) y(2,3) by (intro rnd_in_range) simp_all
  then show ?thesis using x(1) y(1) by simp
qed

lemma Math_round_range:
  assumes "in_range 0 100 v"
  shows "in_range 0 100 (Math_round_ieee v)"
proof -
  obtain x where x: "v = Num x" "0 \<le> x" "x \<le> 100" using assms by (rule in_rangeE)
  have "0 \<le> \<lfloor>x + 1 / 2\<rfloor>" using x(2) by simp
  moreover have "\<lfloor>x + 1 / 2\<rfloor> \<le> 100"
  proof -
    have "x + 1 / 2 < 101" using x(3) by simp
    then have "\<lfloor>x + 1 / 2\<rfloor> < 101" by (simp add: floor_less_iff)
    then show ?thesis by simp
  qed
  ultimately show ?thesis using x(1) by simp
qed

lemma ieee_rounding_exact: "ieee_rounding exact"
  by (simp add: ieee_rounding_def exact_def)

lemmas score_ieee_eval =
  score_bounds_def getPerformanceScore_ieee_def average_ieee_def slice_last_def sample_ieee_def
  fpsScore_ieee_def latencyScore_ieee_def cpuScore_ieee_def stabilityScore_ieee_def
  d_sub_def Math_min_def Math_max_def exact_def scored_fields_nonneg_def in_range_def Let_def

text \<open>
  Claim C5, as stated, fails. \<open>Math.min(avgFps / 30, 1)\<close> bounds the fps term from above
  only, and \<open>Math.max(0, 1 - avg / 100)\<close> bounds the latency and cpu terms from below only:
  one sample with latency and cpuUsage of \<open>-100\<close> has a latency sub-score of 50 and a
  composite score of 150. And a sample whose fps is \<open>NaN\<close> has \<open>NaN\<close> for its fps
  sub-score and for its composite score, which lies in no range.
\<close>

theorem score_bounds_counterexample:
  "latencyScore_ieee exact (Num (- 100)) = Num 50 \<and>
   getPerformanceScore_ieee exact [sample_ieee (Num 30) (Num (- 100)) (Num (- 100))] = Num 150 \<and>
   \<not> score_bounds exact [sample_ieee (Num 30) (Num (- 100)) (Num (- 100))] \<and>
   fpsScore_ieee exact NaN = NaN \<and>
   getPerformanceScore_ieee exact [sample_ieee NaN (Num 0) (Num 0)] = NaN \<and>
   \<not> score_bounds exact [sample_ieee NaN (Num 0) (Num 0)]"
  by (simp add: score_ieee_eval)

text \<open>
  Claim C5, amended. For every non-empty list of samples whose scored window (the last
  ten) has an fps, a latency and a cpuUsage that are neither \<open>NaN\<close> nor negative, each of
  the four sub-scores is a number in \<open>[0, 25]\<close> and the composite score is a number in
  \<open>[0, 100]\<close>. This is proved of the doubles, under every rounding that is monotone and
  exact on the integers up to \<open>2\<^sup>5\<^sup>3\<close>; a scored field may be the positive infinity and a
  sum may overflow.
\<close>

theorem score_bounds_nonneg:
  assumes "ieee_rounding rnd"
    and "data \<noteq> []"
    and "\<forall>d \<in> set (slice_last 10 data). scored_fields_nonneg d"
  shows "score_bounds rnd data"
proof -
  let ?recent = "slice_last 10 data"
  have ne: "?recent \<noteq> []" using assms(2) by (simp add: slice_last_nonempty)
  have f: "dle (Num 0) (average_ieee rnd fps ?recent)"
    using assms(1,3) ne by (intro average_nonneg) (simp_all add: scored_fields_nonneg_def)
  have l: "dle (Num 0) (average_ieee rnd latency ?recent)"
    using assms(1,3) ne by (intro average_nonneg) (simp_all add: scored_fields_nonneg_def)
  have c: "dle (Num 0) (average_ieee rnd cpuUsage ?recent)"
    using assms(1,3) ne by (intro average_nonneg) (simp_all add: scored_fields_nonneg_def)
  let ?f = "fpsScore_ieee rnd (average_ieee rnd fps ?recent)"
  let ?l = "latencyScore_ieee rnd (average_ieee rnd latency ?recent)"
  let ?c = "cpuScore_ieee rnd (average_ieee rnd cpuUsage ?recent)"
  have rf: "in_range 0 25 ?f" using assms(1) f by (rule fpsScore_range)
  have rl: "in_range 0 25 ?l"
    unfolding latencyScore_ieee_def using assms(1) l by (rule penalty_range)
  have rc: "in_range 0 25 ?c"
    unfolding cpuScore_ieee_def using assms(1) c by (rule penalty_range)
  have rs: "in_range 0 25 stabilityScore_ieee" by (simp add: stabilityScore_ieee_def)
  have "in_range 0 (of_int (25 + 25)) (d_add rnd ?f ?l)"
    using assms(1) rf rl by (intro d_add_in_range [where lo = 0]) simp_all
  then have "in_range 0 (of_int (50 + 25)) (d_add rnd (d_add rnd ?f ?l) ?c)"
    using assms(1) rc by (intro d_add_in_range [where lo = 0]) simp_all
  then have "in_range 0 (of_int (75 + 25))
      (d_add rnd (d_add rnd (d_add rnd ?f ?l) ?c) stabilityScore_ieee)"
    using assms(1) rs by (intro d_add_in_range [where lo = 0]) simp_all
  then have "in_range 0 100 (Math_round_ieee
      (d_add rnd (d_add rnd (d_add rnd ?f ?l) ?c) stabilityScore_ieee))"
    by (intro Math_round_range) simp
  then have rt: "in_range 0 100 (getPerformanceScore_ieee rnd data)"
    using assms(2) by (simp add: getPerformanceScore_ieee_def Let_def)
  show ?thesis using rf rl rc rs rt by (simp add: score_bounds_def Let_def)
qed

theorem score_bounds_nonneg_witness:
  "ieee_rounding exact \<and>
   [sample_ieee (Num 24) (Num 50) (Num 40), sample_ieee (Num 12) PInf (Num 10)] \<noteq> [] \<and>
   list_all scored_fields_nonneg
     (slice_last 10 [sample_ieee (Num 24) (Num 50) (Num 40), sample_ieee (Num 12) PInf (Num 10)]) \<and>
   score_bounds exact [sample_ieee (Num 24) (Num 50) (Num 40), sample_ieee (Num 12) PInf (Num 10)]"
  using score_bounds_nonneg
    [of exact "[sample_ieee (Num 24) (Num 50) (Num 40), sample_ieee (Num 12) PInf (Num 10)]"]
    ieee_rounding_exact
  by (simp add: slice_last_def sample_ieee_def scored_fields_nonneg_def)

text \<open>
  Claim C10. On the empty sample list \<open>getPerformanceScore\<close> returns exactly 0 and
  \<open>getPerformanceGrade\<close> maps that score to the grade \<open>D\<close>. The early return comes before
  any average is taken, and on every other list the window is non-empty, so no input makes
  the score the \<open>NaN\<close> of a division by a zero window length.
\<close>

theorem score_empty:
  "getPerformanceScore [] = Some 0 \<and> shown_grade [] = Some ''D'' \<and>
   grade (getPerformanceGrade 0) = ''D'' \<and>
   (\<forall>data. getPerformanceScore data \<noteq> None)"
proof -
  have a: "getPerformanceScore [] = Some 0" by (simp add: getPerformanceScore_def)
  have b: "grade (getPerformanceGrade 0) = ''D''" by (simp add: getPerformanceGrade_def)
  have c: "getPerformanceScore data \<noteq> None" for data
  proof (cases "data = []")
    case True
    then show ?thesis using a by simp
  next
    case False
    then have ne: "slice_last 10 data \<noteq> []" by (simp add: slice_last_nonempty)
    obtain f l c where "average fps (slice_last 10 data) = Some f"
      "average latency (slice_last 10 data) = Some l"
      "average cpuUsage (slice_last 10 data) = Some c"
      using average_defined [OF ne] by metis
    then show ?thesis using False by (simp add: getPerformanceScore_def)
  qed
  show ?thesis using a b c by (simp add: shown_grade_def)
qed

subsection \<open>The exact score and the score over doubles\<close>

text \<open>The score over doubles without rounding is the exact score.\<close>

lemma slice_last_map: "slice_last n (map g xs) = map g (slice_last n xs)"
  by (simp add: slice_last_def drop_map)

lemma foldl_exact:
  assumes "\<And>d. f (to_double d) = Num (g d)"
  shows "foldl (\<lambda>sum d. d_add exact sum (f d)) (Num a) (map to_double xs) =
         Num (foldl (\<lambda>sum d. sum + g d) a xs)"
  by (induction xs arbitrary: a) (simp_all add: assms exact_def)

lemma average_exact:
  assumes "\<And>d. f (to_double d) = Num (g d)"
  shows "average_ieee exact f (map to_double xs) = of_result (average g xs)"
proof -
  have "foldl (\<lambda>sum d. d_add exact sum (f d)) (Num 0) (map to_double xs) =
        Num (foldl (\<lambda>sum d. sum + g d) 0 xs)"
    using assms by (rule foldl_exact [of f g])
  then show ?thesis
    by (simp add: average_ieee_def average_def of_result_def exact_def)
qed

lemma getPerformanceScore_exact:
  "getPerformanceScore_ieee exact (map to_double data) = of_result (getPerformanceScore data)"
proof (cases "data = []")
  case True
  then show ?thesis
    by (simp add: getPerformanceScore_ieee_def getPerformanceScore_def of_result_def)
next
  case False
  let ?recent = "slice_last 10 data"
  have ne: "?recent \<noteq> []" using False by (simp add: slice_last_nonempty)
  obtain f l c where avg: "average fps ?recent = Some f" "average latency ?recent = Some l"
      "average cpuUsage ?recent = Some c"
    using average_defined [OF ne] by metis
  have "average_ieee exact fps (map to_double ?recent) = Num f"
    "average_ieee exact latency (map to_double ?recent) = Num l"
    "average_ieee exact cpuUsage (map to_double ?recent) = Num c"
    using avg average_exact [of fps fps ?recent] average_exact [of latency latency ?recent]
      average_exact [of cpuUsage cpuUsage ?recent]
    by (simp_all add: to_double_def of_result_def)
  then show ?thesis
    using False avg
    by (simp add: getPerformanceScore_ieee_def getPerformanceScore_def slice_last_map Let_def
        fpsScore_ieee_def latencyScore_ieee_def cpuScore_ieee_def stabilityScore_ieee_def
        fpsScore_def latencyScore_def cpuScore_def stabilityScore_def Math_round_def
        d_sub_def Math_min_def Math_max_def exact_def of_result_def min_def max_def)
qed


text \<open>
  The two point values of the exact score hold under every rounding: the score of the
  empty list, and the score of a window of ten samples with 30 fps and no latency or load.
\<close>

lemma rnd_int:
  "ieee_rounding rnd \<Longrightarrow> \<bar>n\<bar> \<le> 2 ^ 53 \<Longrightarrow> rnd (of_int n) = Num (of_int n)"
  unfolding ieee_rounding_def by blast

lemma score_empty_ieee: "getPerformanceScore_ieee rnd [] = Num 0"
  by (simp add: getPerformanceScore_ieee_def)

lemma foldl_const_ieee:
  assumes "ieee_rounding rnd" and "0 \<le> c"
  shows "\<forall>d \<in> set xs. f d = Num (of_int c) \<Longrightarrow> 0 \<le> a \<Longrightarrow>
         a + c * int (length xs) \<le> 2 ^ 53 \<Longrightarrow>
         foldl (\<lambda>sum d. d_add rnd sum (f d)) (Num (of_int a)) xs =
           Num (of_int (a + c * int (length xs)))"
proof (induction xs arbitrary: a)
  case Nil
  then show ?case by simp
next
  case (Cons x xs)
  have step: "a + c \<le> 2 ^ 53" "0 \<le> a + c"
  proof -
    have "0 \<le> c * int (length xs)" using assms(2) by simp
    then show "a + c \<le> 2 ^ 53" using Cons.prems(3) by (simp add: algebra_simps)
    show "0 \<le> a + c" using Cons.prems(2) assms(2) by simp
  qed
  have "\<bar>a + c\<bar> \<le> 2 ^ 53" using step by linarith
  then have "rnd (of_int (a + c)) = Num (of_int (a + c))"
    using assms(1) by (intro rnd_int)
  then have "d_add rnd (Num (of_int a)) (f x) = Num (of_int (a + c))"
    using Cons.prems(1) by simp
  moreover have "foldl (\<lambda>sum d. d_add rnd sum (f d)) (Num (of_int (a + c))) xs =
      Num (of_int ((a + c) + c * int (length xs)))"
    using Cons.prems step by (intro Cons.IH) (simp_all add: algebra_simps)
  ultimately show ?case by (simp add: algebra_simps)
qed

lemma score_full_marks_ieee:
  assumes "ieee_rounding rnd" and "length w = 10"
    and "\<forall>d \<in> set w. fps d = Num 30 \<and> latency d = Num 0 \<and> cpuUsage d = Num 0"
  shows "getPerformanceScore_ieee rnd (older @ w) = Num 100"
proof -
  have r: "rnd 0 = Num 0" "rnd 1 = Num 1" "rnd 25 = Num 25" "rnd 30 = Num 30"
    "rnd 50 = Num 50" "rnd 75 = Num 75" "rnd 100 = Num 100"
    using rnd_int [OF assms(1), of 0] rnd_int [OF assms(1), of 1] rnd_int [OF assms(1), of 25]
      rnd_int [OF assms(1), of 30] rnd_int [OF assms(1), of 50] rnd_int [OF assms(1), of 75]
      rnd_int [OF assms(1), of 100]
    by simp_all
  have w: "slice_last 10 (older @ w) = w" using assms(2) by (rule slice_last_append)
  have "foldl (\<lambda>sum d. d_add rnd sum (fps d)) (Num (of_int 0)) w =
      Num (of_int (0 + 30 * int (length w)))"
    using assms by (intro foldl_const_ieee) simp_all
  then have f: "average_ieee rnd fps w = Num 30"
    using assms(2) r by (simp add: average_ieee_def)
  have "foldl (\<lambda>sum d. d_add rnd sum (latency d)) (Num (of_int 0)) w =
      Num (of_int (0 + 0 * int (length w)))"
    using assms by (intro foldl_const_ieee) simp_all
  then have l: "average_ieee rnd latency w = Num 0"
    using assms(2) r by (simp add: average_ieee_def)
  have "foldl (\<lambda>sum d. d_add rnd sum (cpuUsage d)) (Num (of_int 0)) w =
      Num (of_int (0 + 0 * int (length w)))"
    using assms by (intro foldl_const_ieee) simp_all
  then have c: "average_ieee rnd cpuUsage w = Num 0"
    using assms(2) r by (simp add: average_ieee_def)
  have "w \<noteq> []" using assms(2) by auto
  then show ?thesis
    by (simp add: getPerformanceScore_ieee_def w f l c r Let_def fpsScore_ieee_def
        latencyScore_ieee_def cpuScore_ieee_def stabilityScore_ieee_def d_sub_def
        Math_min_def Math_max_def)
qed

text \<open>
  The two inputs at which the score leaves its range give the same scores under every
  rounding.
\<close>

lemma score_out_of_range_any_rounding:
  assumes "ieee_rounding rnd"
  shows "getPerformanceScore_ieee rnd [sample_ieee (Num 30) (Num (- 100)) (Num (- 100))] = Num 150"
    and "getPerformanceScore_ieee rnd [sample_ieee NaN (Num 0) (Num 0)] = NaN"
proof -
  have r: "rnd 0 = Num 0" "rnd 1 = Num 1" "rnd 2 = Num 2" "rnd 25 = Num 25" "rnd 30 = Num 30"
    "rnd 50 = Num 50" "rnd 75 = Num 75" "rnd 125 = Num 125" "rnd 150 = Num 150"
    "rnd (- 1) = Num (- 1)" "rnd (- 100) = Num (- 100)"
    using rnd_int [OF assms, of 0] rnd_int [OF assms, of 1] rnd_int [OF assms, of 2]
      rnd_int [OF assms, of 25] rnd_int [OF assms, of 30] rnd_int [OF assms, of 50]
      rnd_int [OF assms, of 75] rnd_int [OF assms, of 125] rnd_int [OF assms, of 150]
      rnd_int [OF assms, of "- 1"] rnd_int [OF assms, of "- 100"]
    by simp_all
  show "getPerformanceScore_ieee rnd [sample_ieee (Num 30) (Num (- 100)) (Num (- 100))] = Num 150"
    by (simp add: getPerformanceScore_ieee_def average_ieee_def slice_last_def sample_ieee_def
        fpsScore_ieee_def latencyScore_ieee_def cpuScore_ieee_def stabilityScore_ieee_def
        d_sub_def Math_min_def Math_max_def Let_def r)
  show "getPerformanceScore_ieee rnd [sample_ieee NaN (Num 0) (Num 0)] = NaN"
    by (simp add: getPerformanceScore_ieee_def average_ieee_def slice_last_def sample_ieee_def
        fpsScore_ieee_def Math_min_def Let_def)
qed

section \<open>Properties of formatFileSize\<close>

lemma digit_cases:
  assumes "d < 10"
  shows "d = 0 \<or> d = 1 \<or> d = 2 \<or> d = 3 \<or> d = 4 \<or> d = 5 \<or> d = 6 \<or> d = 7 \<or> d = 8 \<or> d = (9::nat)"
  using assms by arith

lemma is_digit_digit_char: "d < 10 \<Longrightarrow> is_digit (digit_char d)"
  using digit_cases [of d] by (auto simp: is_digit_def digit_char_def)

lemma digit_val_digit_char: "d < 10 \<Longrightarrow> digit_val (digit_char d) = d"
  using digit_cases [of d] by (auto simp: digit_val_def digit_char_def)

lemma digit_char_not_space: "d < 10 \<Longrightarrow> digit_char d \<noteq> CHR '' ''"
  using digit_cases [of d] by (auto simp: digit_char_def)

lemma not_digit_point: "\<not> is_digit CHR ''.''"
  by (simp add: is_digit_def)

lemma not_digit_space: "\<not> is_digit CHR '' ''"
  by (simp add: is_digit_def)

lemma decimal_small: "n < 10 \<Longrightarrow> decimal n = [digit_char n]"
  by (subst decimal.simps) simp

lemma decimal_large: "\<not> n < 10 \<Longrightarrow> decimal n = decimal (n div 10) @ [digit_char (n mod 10)]"
  by (subst decimal.simps) simp

lemma decimal_digits: "\<forall>c \<in> set (decimal n). is_digit c"
proof (induction n rule: decimal.induct)
  case (1 n)
  show ?case
  proof (cases "n < 10")
    case True
    then show ?thesis by (simp add: decimal_small is_digit_digit_char)
  next
    case False
    then have "\<forall>c \<in> set (decimal (n div 10)). is_digit c" by (rule "1.IH")
    then show ?thesis using False by (simp add: decimal_large is_digit_digit_char)
  qed
qed

lemma decimal_no_space: "\<forall>c \<in> set (decimal n). c \<noteq> CHR '' ''"
  using decimal_digits [of n] not_digit_space by blast

lemma decimal_nonempty: "decimal n \<noteq> []"
  by (cases "n < 10") (simp_all add: decimal_small decimal_large)

lemma read_decimal_snoc: "read_decimal (ds @ [c]) = 10 * read_decimal ds + digit_val c"
  by (simp add: read_decimal_def)

lemma read_decimal_decimal: "read_decimal (decimal n) = n"
proof (induction n rule: decimal.induct)
  case (1 n)
  show ?case
  proof (cases "n < 10")
    case True
    then show ?thesis by (simp add: decimal_small read_decimal_def digit_val_digit_char)
  next
    case False
    then have "read_decimal (decimal (n div 10)) = n div 10" by (rule "1.IH")
    then show ?thesis
      using False by (simp add: decimal_large read_decimal_snoc digit_val_digit_char)
  qed
qed

lemma unit_index_rec [code]:
  "unit_index n = (if n < 1024 then 0 else Suc (unit_index (n div 1024)))"
proof (cases "n < 1024")
  case True
  show ?thesis
  proof (cases "n = 0")
    case True
    then show ?thesis by (simp add: unit_index_def)
  next
    case False
    have "ln (real n) < ln 1024" using True False by simp
    then have "ln (real n) / ln 1024 < 1" by simp
    moreover have "0 \<le> ln (real n) / ln 1024" using False by simp
    ultimately have "\<lfloor>ln (real n) / ln 1024\<rfloor> = 0" by linarith
    then show ?thesis using True by (simp add: unit_index_def)
  qed
next
  case False
  have "\<lfloor>log 1024 (real n)\<rfloor> = \<lfloor>log 1024 (real (n div 1024))\<rfloor> + 1"
    using False floor_log_div [of 1024 n] by simp
  moreover have "0 \<le> \<lfloor>log 1024 (real (n div 1024))\<rfloor>"
    using False by simp
  ultimately show ?thesis using False
    by (simp add: unit_index_def log_def nat_add_distrib)
qed

lemma unit_index_bounds:
  "0 < n \<Longrightarrow> 1024 ^ unit_index n \<le> n \<and> n < 1024 ^ Suc (unit_index n)"
proof (induction n rule: less_induct)
  case (less n)
  show ?case
  proof (cases "n < 1024")
    case True
    then show ?thesis using less.prems by (simp add: unit_index_rec)
  next
    case False
    let ?m = "n div 1024"
    have m: "0 < ?m" "?m < n" using False by simp_all
    have ih: "1024 ^ unit_index ?m \<le> ?m \<and> ?m < 1024 ^ Suc (unit_index ?m)"
      using less.IH [OF m(2) m(1)] .
    have u: "unit_index n = Suc (unit_index ?m)" using False by (subst unit_index_rec) simp
    have "1024 ^ unit_index ?m * 1024 \<le> n"
      using ih by (simp add: less_eq_div_iff_mult_less_eq)
    moreover have "n < 1024 ^ Suc (unit_index ?m) * 1024"
      using ih by (simp add: div_less_iff_less_mult)
    ultimately show ?thesis by (simp add: u mult.commute)
  qed
qed

lemma unit_index_mono:
  assumes "0 < a" and "a \<le> b"
  shows "unit_index a \<le> unit_index b"
proof (rule ccontr)
  assume "\<not> unit_index a \<le> unit_index b"
  then have "Suc (unit_index b) \<le> unit_index a" by simp
  then have "(1024::nat) ^ Suc (unit_index b) \<le> 1024 ^ unit_index a"
    by (intro power_increasing) simp_all
  moreover have "b < 1024 ^ Suc (unit_index b)" using unit_index_bounds [of b] assms by simp
  moreover have "1024 ^ unit_index a \<le> a" using unit_index_bounds [of a] assms by simp
  ultimately show False using assms(2) by linarith
qed

lemma unit_index_less_4: "0 < n \<Longrightarrow> n < 1024 ^ 4 \<Longrightarrow> unit_index n < 4"
proof (rule ccontr)
  assume n: "0 < n" "n < 1024 ^ 4" and "\<not> unit_index n < 4"
  then have "4 \<le> unit_index n" by simp
  then have "(1024::nat) ^ 4 \<le> 1024 ^ unit_index n" by (intro power_increasing) simp_all
  moreover have "1024 ^ unit_index n \<le> n" using unit_index_bounds [of n] n(1) by simp
  ultimately show False using n(2) by linarith
qed

lemma parseFloat_whole:
  assumes "\<forall>c \<in> set ip. is_digit c" and "ip \<noteq> []"
  shows "parseFloat ip = Some (of_nat (read_decimal ip))"
proof -
  have tw: "takeWhile is_digit ip = ip" using assms(1) by simp
  have dw: "dropWhile is_digit ip = []" using assms(1) by simp
  have "read_decimal [] = 0" by (simp add: read_decimal_def)
  then show ?thesis by (simp add: parseFloat_def Let_def tw dw assms(2))
qed

lemma parseFloat_point:
  assumes "\<forall>c \<in> set ip. is_digit c" and "\<forall>c \<in> set fp. is_digit c" and "ip \<noteq> []"
  shows "parseFloat (ip @ CHR ''.'' # fp) =
           Some (of_nat (read_decimal ip) + of_nat (read_decimal fp) / 10 ^ length fp)"
proof -
  have tw: "takeWhile is_digit (ip @ CHR ''.'' # fp) = ip"
    using assms(1) by (simp add: not_digit_point)
  have dw: "dropWhile is_digit (ip @ CHR ''.'' # fp) = CHR ''.'' # fp"
    using assms(1) by (simp add: not_digit_point)
  have tf: "takeWhile is_digit fp = fp" using assms(2) by simp
  show ?thesis by (simp add: parseFloat_def Let_def tw dw tf assms(3))
qed

lemma split_hundredths:
  "100 * (n div 100) + 10 * (n mod 100 div 10) + n mod 10 = (n::nat)"
proof -
  have "n mod 100 mod 10 = n mod 10" by (simp add: mod_mod_cancel)
  then have "10 * (n mod 100 div 10) + n mod 10 = n mod 100"
    using mult_div_mod_eq [of 10 "n mod 100"] by simp
  moreover have "100 * (n div 100) + n mod 100 = n" by (rule mult_div_mod_eq)
  ultimately show ?thesis by linarith
qed

lemma real_split_hundredths:
  "real (n div 100) + real (10 * (n mod 100 div 10) + n mod 10) / 100 = real n / 100"
proof -
  have "real (100 * (n div 100) + 10 * (n mod 100 div 10) + n mod 10) = real n"
    by (simp only: split_hundredths)
  then show ?thesis by (simp add: field_simps)
qed

lemma parseFloat_toFixed2:
  "parseFloat (toFixed2 x) = Some (real (nat \<lfloor>x * 100 + 1 / 2\<rfloor>) / 100)"
proof -
  let ?n = "nat \<lfloor>x * 100 + 1 / 2\<rfloor>"
  let ?d1 = "?n mod 100 div 10" and ?d2 = "?n mod 10"
  let ?fp = "[digit_char ?d1, digit_char ?d2]"
  have d: "?d1 < 10" "?d2 < 10" by simp_all
  have fp: "\<forall>c \<in> set ?fp. is_digit c" using d by (simp add: is_digit_digit_char)
  have rd: "read_decimal ?fp = 10 * ?d1 + ?d2"
    using d by (simp add: read_decimal_def digit_val_digit_char)
  have "toFixed2 x = decimal (?n div 100) @ CHR ''.'' # ?fp"
    by (simp add: toFixed2_def Let_def)
  then have "parseFloat (toFixed2 x) =
      Some (real (read_decimal (decimal (?n div 100))) + real (read_decimal ?fp) / 10 ^ length ?fp)"
    using parseFloat_point [OF decimal_digits fp decimal_nonempty] by simp
  also have "\<dots> = Some (real (?n div 100) + real (10 * ?d1 + ?d2) / 100)"
    by (simp only: read_decimal_decimal rd) simp
  also have "\<dots> = Some (real ?n / 100)" by (simp only: real_split_hundredths)
  finally show ?thesis .
qed

lemma Number_toString_hundredths:
  "Number_toString (real n / 100) =
     decimal (n div 100) @
       (if n mod 100 div 10 = 0 \<and> n mod 10 = 0 then []
        else CHR ''.'' # digit_char (n mod 100 div 10) #
             (if n mod 10 = 0 then [] else [digit_char (n mod 10)]))"
  by (simp add: Number_toString_def Let_def)

lemma Number_toString_no_space:
  "\<forall>c \<in> set (Number_toString (real n / 100)). c \<noteq> CHR '' ''"
proof -
  have "n mod 100 div 10 < 10" "n mod 10 < 10" by simp_all
  then show ?thesis
    using decimal_no_space [of "n div 100"]
    by (auto simp: Number_toString_hundredths digit_char_not_space)
qed

lemma parseFloat_Number_toString:
  "parseFloat (Number_toString (real n / 100)) = Some (real n / 100)"
proof -
  let ?d1 = "n mod 100 div 10" and ?d2 = "n mod 10"
  have d: "?d1 < 10" "?d2 < 10" by simp_all
  consider (whole) "?d1 = 0" "?d2 = 0" | (one) "?d1 \<noteq> 0" "?d2 = 0" | (two) "?d2 \<noteq> 0"
    by blast
  then show ?thesis
  proof cases
    case whole
    then have "Number_toString (real n / 100) = decimal (n div 100)"
      by (simp add: Number_toString_hundredths)
    then have "parseFloat (Number_toString (real n / 100)) = Some (real (n div 100))"
      using parseFloat_whole [OF decimal_digits decimal_nonempty, of "n div 100"]
      by (simp add: read_decimal_decimal)
    moreover have "real (n div 100) = real n / 100"
      using real_split_hundredths [of n] whole by simp
    ultimately show ?thesis by simp
  next
    case one
    let ?fp = "[digit_char ?d1]"
    have fp: "\<forall>c \<in> set ?fp. is_digit c" using d by (simp add: is_digit_digit_char)
    have rd: "read_decimal ?fp = ?d1"
      using d by (simp add: read_decimal_def digit_val_digit_char)
    have "Number_toString (real n / 100) = decimal (n div 100) @ CHR ''.'' # ?fp"
      using one by (simp add: Number_toString_hundredths)
    then have "parseFloat (Number_toString (real n / 100)) =
        Some (real (read_decimal (decimal (n div 100))) + real (read_decimal ?fp) / 10 ^ length ?fp)"
      using parseFloat_point [OF decimal_digits fp decimal_nonempty] by simp
    also have "\<dots> = Some (real (n div 100) + real ?d1 / 10)"
      by (simp only: read_decimal_decimal rd) simp
    also have "\<dots> = Some (real n / 100)"
      using real_split_hundredths [of n] one by simp
    finally show ?thesis .
  next
    case two
    let ?fp = "[digit_char ?d1, digit_char ?d2]"
    have fp: "\<forall>c \<in> set ?fp. is_digit c" using d by (simp add: is_digit_digit_char)
    have rd: "read_decimal ?fp = 10 * ?d1 + ?d2"
      using d by (simp add: read_decimal_def digit_val_digit_char)
    have "Number_toString (real n / 100) = decimal (n div 100) @ CHR ''.'' # ?fp"
      using two by (simp add: Number_toString_hundredths)
    then have "parseFloat (Number_toString (real n / 100)) =
        Some (real (read_decimal (decimal (n div 100))) + real (read_decimal ?fp) / 10 ^ length ?fp)"
      using parseFloat_point [OF decimal_digits fp decimal_nonempty] by simp
    also have "\<dots> = Some (real (n div 100) + real (10 * ?d1 + ?d2) / 100)"
      by (simp only: read_decimal_decimal rd) simp
    also have "\<dots> = Some (real n / 100)" by (simp only: real_split_hundredths)
    finally show ?thesis .
  qed
qed

lemma formatFileSize_pos:
  assumes "0 < bytes"
  shows "formatFileSize bytes =
           Number_toString (real (hundredths bytes) / 100) @ CHR '' '' # sizes_at (unit_index bytes)"
  using assms by (simp add: formatFileSize_def Let_def parseFloat_toFixed2 hundredths_def)

lemma unit_factor_sizes_at:
  "unit_factor (sizes_at i) = (if i < 4 then Some (1024 ^ i) else None)"
proof -
  consider "i = 0" | "i = 1" | "i = 2" | "i = 3" | "4 \<le> i" by linarith
  then show ?thesis
    by cases (simp_all add: sizes_at_def sizes_def unit_factor_def)
qed

lemma representedBytes_shape:
  assumes "\<forall>c \<in> set numeric. c \<noteq> CHR '' ''"
  shows "representedBytes (numeric @ CHR '' '' # unit) =
           (case parseFloat numeric of
              None \<Rightarrow> None
            | Some v \<Rightarrow> (case unit_factor unit of None \<Rightarrow> None | Some f \<Rightarrow> Some (v * of_nat f)))"
proof -
  have "takeWhile (\<lambda>c. c \<noteq> CHR '' '') (numeric @ CHR '' '' # unit) = numeric"
    using assms by simp
  moreover have "dropWhile (\<lambda>c. c \<noteq> CHR '' '') (numeric @ CHR '' '' # unit) = CHR '' '' # unit"
    using assms by simp
  ultimately show ?thesis by (simp add: representedBytes_def Let_def)
qed

lemma representedBytes_formatFileSize:
  assumes "0 < bytes"
  shows "representedBytes (formatFileSize bytes) =
           (if unit_index bytes < 4
            then Some (real (hundredths bytes) / 100 * 1024 ^ unit_index bytes)
            else None)"
  using assms
  by (simp add: formatFileSize_pos representedBytes_shape [OF Number_toString_no_space]
      parseFloat_Number_toString unit_factor_sizes_at)

lemma representedBytes_zero: "representedBytes (formatFileSize 0) = Some 0"
  by (simp add: formatFileSize_def representedBytes_def parseFloat_def is_digit_def
      read_decimal_def digit_val_def unit_factor_def)

lemma hundredths_lower:
  assumes "0 < n"
  shows "100 \<le> hundredths n"
proof -
  define x where "x = real n / 1024 ^ unit_index n"
  have "(1024::real) ^ unit_index n \<le> real n"
    using unit_index_bounds [OF assms] by (metis of_nat_le_iff of_nat_numeral of_nat_power)
  then have "1 \<le> x" by (simp add: x_def field_simps)
  then have "(100::real) \<le> x * 100 + 1 / 2" by simp
  then have "100 \<le> \<lfloor>x * 100 + 1 / 2\<rfloor>" by (simp add: le_floor_iff)
  then have "100 \<le> nat \<lfloor>x * 100 + 1 / 2\<rfloor>" by linarith
  then show ?thesis by (simp only: hundredths_def x_def)
qed

lemma hundredths_upper:
  assumes "0 < n"
  shows "hundredths n \<le> 102400"
proof -
  define x where "x = real n / 1024 ^ unit_index n"
  have "real n < 1024 ^ Suc (unit_index n)"
    using unit_index_bounds [OF assms] by (metis of_nat_less_iff of_nat_numeral of_nat_power)
  then have "x < 1024" by (simp add: x_def field_simps)
  then have "x * 100 + 1 / 2 < 102401" by simp
  then have "\<lfloor>x * 100 + 1 / 2\<rfloor> < 102401" by (simp add: floor_less_iff)
  then have "nat \<lfloor>x * 100 + 1 / 2\<rfloor> \<le> 102400" by linarith
  then show ?thesis by (simp only: hundredths_def x_def)
qed

lemma hundredths_mono:
  assumes "a \<le> b" and "unit_index a = unit_index b"
  shows "hundredths a \<le> hundredths b"
proof -
  define x where "x = real a / 1024 ^ unit_index a"
  define y where "y = real b / 1024 ^ unit_index b"
  have "x \<le> y"
    using assms(1) by (simp add: x_def y_def assms(2) divide_right_mono)
  then have "x * 100 + 1 / 2 \<le> y * 100 + 1 / 2" by simp
  then have "\<lfloor>x * 100 + 1 / 2\<rfloor> \<le> \<lfloor>y * 100 + 1 / 2\<rfloor>" by (rule floor_mono)
  then have "nat \<lfloor>x * 100 + 1 / 2\<rfloor> \<le> nat \<lfloor>y * 100 + 1 / 2\<rfloor>" by (rule nat_mono)
  then show ?thesis by (simp only: hundredths_def x_def y_def)
qed

lemma shown_value_mono:
  assumes "0 < a" and "a \<le> b"
  shows "real (hundredths a) / 100 * 1024 ^ unit_index a
       \<le> real (hundredths b) / 100 * 1024 ^ unit_index b"
proof (cases "unit_index a = unit_index b")
  case True
  have "real (hundredths a) \<le> real (hundredths b)"
    using hundredths_mono [OF assms(2) True] by simp
  then show ?thesis by (simp add: True divide_right_mono mult_right_mono)
next
  case False
  then have lt: "Suc (unit_index a) \<le> unit_index b"
    using unit_index_mono [OF assms] by simp
  have b: "0 < b" using assms by simp
  have "real (hundredths a) / 100 \<le> 1024" using hundredths_upper [OF assms(1)] by simp
  then have "real (hundredths a) / 100 * 1024 ^ unit_index a \<le> 1024 * 1024 ^ unit_index a"
    by (intro mult_right_mono) simp_all
  also have "\<dots> = (1024::real) ^ Suc (unit_index a)" by simp
  also have "\<dots> \<le> 1024 ^ unit_index b" using lt by (intro power_increasing) simp_all
  also have "\<dots> \<le> real (hundredths b) / 100 * 1024 ^ unit_index b"
  proof -
    have "1 \<le> real (hundredths b) / 100" using hundredths_lower [OF b] by simp
    then have "1 * (1024::real) ^ unit_index b \<le> real (hundredths b) / 100 * 1024 ^ unit_index b"
      by (intro mult_right_mono) simp_all
    then show ?thesis by simp
  qed
  finally show ?thesis .
qed

lemmas formatFileSize_eval =
  formatFileSize_def unit_index_rec toFixed2_def decimal.simps digit_char_def parseFloat_def
  is_digit_def read_decimal_def digit_val_def Number_toString_def sizes_at_def sizes_def

text \<open>
  Claim C6, as stated, fails in its second half. For 1048576 bytes \<open>toFixed(2)\<close> gives the
  string \<open>1.00\<close>, but \<open>parseFloat\<close> turns it back into the number 1, whose string is \<open>1\<close>:
  the result is \<open>1 MB\<close>, not \<open>1.00 MB\<close>.
\<close>

theorem formatFileSize_two_decimals_counterexample:
  "toFixed2 (real 1048576 / 1024 ^ 2) = ''1.00'' \<and>
   parseFloat ''1.00'' = Some 1 \<and>
   Number_toString 1 = ''1'' \<and>
   formatFileSize 1048576 = ''1 MB'' \<and>
   formatFileSize 1048576 \<noteq> ''1.00 MB''"
  by (simp add: formatFileSize_eval)

text \<open>
  Claim C6, amended. \<open>formatFileSize(0)\<close> returns \<open>0 Bytes\<close>, and \<open>formatFileSize(1048576)\<close>
  returns \<open>1 MB\<close>: the value in the unit is rounded to two decimals and then written
  without trailing zeros, as in \<open>1.18 MB\<close> for 1234567 bytes and \<open>1.5 KB\<close> for 1536 bytes.
\<close>

theorem formatFileSize_examples:
  "formatFileSize 0 = ''0 Bytes'' \<and>
   formatFileSize 1048576 = ''1 MB'' \<and>
   formatFileSize 1234567 = ''1.18 MB'' \<and>
   formatFileSize 1536 = ''1.5 KB''"
  by (simp add: formatFileSize_eval)

text \<open>
  Claim C7, as stated for all byte counts, fails from \<open>1024\<^sup>4\<close> bytes on: the unit index is
  then 4 or more, \<open>sizes[i]\<close> is \<open>undefined\<close>, and the result \<open>1 undefined\<close> has none of the
  units Bytes, KB, MB, GB, so it stands for no byte value that could be compared.
\<close>

theorem formatFileSize_monotonic_counterexample:
  "(1099511627776::nat) \<le> 1099511627776 \<and>
   formatFileSize 1099511627776 = ''1 undefined'' \<and>
   representedBytes ''1 undefined'' = None \<and>
   \<not> represented_le 1099511627776 1099511627776"
  by (simp add: formatFileSize_eval represented_le_def representedBytes_def unit_factor_def)

text \<open>
  Claim C7, amended. For all byte counts \<open>a \<le> b\<close> below \<open>1024\<^sup>4\<close>, the range the units
  Bytes, KB, MB and GB cover, both formatted sizes stand for a byte value (the numeric
  prefix scaled by the unit), and the value of \<open>formatFileSize(a)\<close> is at most that of
  \<open>formatFileSize(b)\<close>.
\<close>

theorem formatFileSize_monotonic:
  assumes "a \<le> b" and "b < 1024 ^ 4"
  shows "represented_le a b"
proof (cases "a = 0")
  case True
  show ?thesis
  proof (cases "b = 0")
    case True
    with \<open>a = 0\<close> show ?thesis by (simp add: represented_le_def representedBytes_zero)
  next
    case False
    then have "unit_index b < 4" using assms(2) by (simp add: unit_index_less_4)
    then show ?thesis
      using False \<open>a = 0\<close>
      by (simp add: represented_le_def representedBytes_zero representedBytes_formatFileSize)
  qed
next
  case False
  then have a: "0 < a" and b: "0 < b" using assms(1) by simp_all
  have "a < 1024 ^ 4" using assms by simp
  then have ia: "unit_index a < 4" using a by (simp add: unit_index_less_4)
  have ib: "unit_index b < 4" using b assms(2) by (simp add: unit_index_less_4)
  show ?thesis
    using shown_value_mono [OF a assms(1)] ia ib a b
    by (simp add: represented_le_def representedBytes_formatFileSize)
qed

theorem formatFileSize_monotonic_witness:
  "(1048575::nat) \<le> 1048576 \<and> (1048576::nat) < 1024 ^ 4 \<and>
   formatFileSize 1048575 = ''1024 KB'' \<and> formatFileSize 1048576 = ''1 MB'' \<and>
   represented_le 1048575 1048576"
  using formatFileSize_monotonic [of 1048575 1048576]
  by (simp add: formatFileSize_eval)

section \<open>Properties of the in-flight gate\<close>

lemma addLog_gate [simp]:
  "processingRef (addLog m c s) = processingRef s" "inFlight (addLog m c s) = inFlight s"
  by (simp_all add: addLog_def)

lemma connectWebSocket_gate [simp]:
  "processingRef (connectWebSocket c s) = processingRef s"
  "inFlight (connectWebSocket c s) = inFlight s"
  by (simp_all add: connectWebSocket_def Let_def)

lemma ws_close_gate [simp]:
  "processingRef (ws_close k s) = processingRef s" "inFlight (ws_close k s) = inFlight s"
  by (simp_all add: ws_close_def)

lemma set_readyState_gate [simp]:
  "processingRef (set_readyState k r s) = processingRef s"
  "inFlight (set_readyState k r s) = inFlight s"
  by (simp_all add: set_readyState_def)

lemma ws_onopen_gate [simp]:
  "processingRef (ws_onopen s) = processingRef s" "inFlight (ws_onopen s) = inFlight s"
  by (simp_all add: ws_onopen_def)

lemma ws_onclose_gate [simp]:
  "processingRef (ws_onclose w s) = processingRef s" "inFlight (ws_onclose w s) = inFlight s"
  by (simp_all add: ws_onclose_def Let_def)

lemma ws_onerror_gate [simp]:
  "processingRef (ws_onerror s) = processingRef s" "inFlight (ws_onerror s) = inFlight s"
  by (simp_all add: ws_onerror_def)

lemma reconnect_timeout_gate [simp]:
  "processingRef (reconnect_timeout c s) = processingRef s"
  "inFlight (reconnect_timeout c s) = inFlight s"
  by (simp_all add: reconnect_timeout_def)

lemma startCamera_gate [simp]:
  "processingRef (startCamera c out s) = processingRef s"
  "inFlight (startCamera c out s) = inFlight s"
  by (cases out; simp add: startCamera_def Let_def)+

lemma handleWebSocketMessage_gate:
  assumes "handleWebSocketMessage data s = Inr s'"
  shows "processingRef s' = processingRef s" and "inFlight s' = inFlight s"
  using assms
  by (auto simp: handleWebSocketMessage_def split: sum.splits if_splits)

lemma ws_onmessage_gate:
  assumes "ws_onmessage P raw s = Inr s'"
  shows "processingRef s' = processingRef s" and "inFlight s' = inFlight s"
  using assms
  by (auto simp: ws_onmessage_def onmessage_try_def handleWebSocketMessage_gate
      split: sum.splits option.splits)

lemma gate_clear_gate: "gate_invariant (clear_gate s)"
  by (simp add: gate_invariant_def clear_gate_def)

lemma gate_img_onload: "gate_invariant (img_onload s)"
  by (simp add: img_onload_def gate_invariant_def clear_gate_def)

lemma gate_stopCamera: "gate_invariant (stopCamera s)"
  by (simp add: stopCamera_def Let_def gate_invariant_def clear_gate_def)

lemma gate_sendFrameToBackend:
  "gate_invariant s \<Longrightarrow> gate_invariant (sendFrameToBackend c t s)"
  by (auto simp: sendFrameToBackend_def gate_invariant_def clear_gate_def Let_def
      split: option.splits Capture.splits)

lemma gate_preserved:
  "gate_invariant s \<Longrightarrow> processingRef s' = processingRef s \<Longrightarrow> inFlight s' = inFlight s \<Longrightarrow>
   gate_invariant s'"
  by (auto simp: gate_invariant_def split: if_splits)

lemma gate_step:
  assumes "gate_invariant s"
  shows "gate_invariant (step P s ev)"
proof (cases ev)
  case ClickConnect
  then show ?thesis by (intro gate_preserved [OF assms]) simp_all
next
  case ClickReconnect
  then show ?thesis by (intro gate_preserved [OF assms]) (simp_all split: option.splits)
next
  case (ClickStart outcome)
  then show ?thesis by (intro gate_preserved [OF assms]) simp_all
next
  case ClickStop
  then show ?thesis by (simp add: gate_stopCamera)
next
  case (SocketOpens k)
  then show ?thesis by (intro gate_preserved [OF assms]) simp_all
next
  case (SocketMessage k raw)
  show ?thesis
  proof (cases "ws_onmessage P raw s")
    case (Inl e)
    then show ?thesis using assms SocketMessage by simp
  next
    case (Inr s')
    then show ?thesis
      using SocketMessage ws_onmessage_gate [OF Inr] by (intro gate_preserved [OF assms]) simp_all
  qed
next
  case (SocketError k)
  then show ?thesis by (intro gate_preserved [OF assms]) simp_all
next
  case (SocketCloses k)
  then show ?thesis by (intro gate_preserved [OF assms]) simp_all
next
  case ImageLoads
  then show ?thesis using assms by (simp add: gate_img_onload)
next
  case ImageFails
  then show ?thesis by (intro gate_preserved [OF assms]) simp_all
next
  case TimeoutFires
  then show ?thesis by (intro gate_preserved [OF assms]) (simp_all split: list.splits)
next
  case (VideoState n)
  then show ?thesis by (intro gate_preserved [OF assms]) simp_all
next
  case (AnimationFrame cs cc c t)
  then show ?thesis using assms by (simp add: loop_cycle_def gate_sendFrameToBackend)
qed

lemma gate_run: "gate_invariant s \<Longrightarrow> gate_invariant (run P s evs)"
  unfolding run_def
  by (induction evs arbitrary: s) (simp_all add: gate_step)

lemma gate_initial: "gate_invariant initial_home"
  by (simp add: gate_invariant_def initial_home_def)

lemma gate_bound: "gate_invariant s \<Longrightarrow> inFlight s \<le> 1"
  by (simp add: gate_invariant_def split: if_splits)

text \<open>
  The history variable counts what is sent: every step adds to \<open>sent\<close> exactly as many
  frames as it adds to \<open>inFlight\<close>, and none when it clears the gate.
\<close>

lemma addLog_sent [simp]: "sent (addLog m c s) = sent s"
  by (simp add: addLog_def)

lemma connectWebSocket_sent [simp]: "sent (connectWebSocket c s) = sent s"
  by (simp add: connectWebSocket_def Let_def)

lemma ws_close_sent [simp]: "sent (ws_close k s) = sent s"
  by (simp add: ws_close_def)

lemma sendFrameToBackend_counts:
  "length (sent (sendFrameToBackend c t s)) =
     length (sent s) + (inFlight (sendFrameToBackend c t s) - inFlight s)"
  by (simp add: sendFrameToBackend_def clear_gate_def Let_def
      split: option.splits Capture.splits)

lemma handleWebSocketMessage_sent:
  "handleWebSocketMessage data s = Inr s' \<Longrightarrow> sent s' = sent s"
  by (auto simp: handleWebSocketMessage_def split: sum.splits if_splits)

lemma ws_onmessage_sent:
  "ws_onmessage P raw s = Inr s' \<Longrightarrow> sent s' = sent s"
  by (auto simp: ws_onmessage_def onmessage_try_def handleWebSocketMessage_sent
      split: sum.splits option.splits)

lemma step_counts_sent:
  "length (sent (step P s ev)) = length (sent s) + (inFlight (step P s ev) - inFlight s)"
proof (cases ev)
  case (SocketMessage k raw)
  show ?thesis
  proof (cases "ws_onmessage P raw s")
    case (Inl e)
    then show ?thesis using SocketMessage by simp
  next
    case (Inr s')
    then show ?thesis
      using SocketMessage ws_onmessage_gate [OF Inr] ws_onmessage_sent [OF Inr] by simp
  qed
next
  case (AnimationFrame cs cc c t)
  then show ?thesis by (simp add: loop_cycle_def sendFrameToBackend_counts)
next
  case (ClickStart outcome)
  then show ?thesis by (cases outcome) (simp_all add: startCamera_def Let_def)
next
  case ClickStop
  then show ?thesis by (simp add: stopCamera_def Let_def clear_gate_def split: option.splits)
next
  case ClickReconnect
  then show ?thesis by (simp split: option.splits)
next
  case TimeoutFires
  then show ?thesis by (simp add: reconnect_timeout_def split: list.splits)
qed (simp_all add: ws_onopen_def ws_onclose_def ws_onerror_def set_readyState_def
      img_onload_def clear_gate_def Let_def)

lemmas home_eval =
  run_def connected_run_def streaming_run_def first_frame_run_def lost_while_streaming_def
  stopped_after_reconnect_def initial_home_def connectWebSocket_def ws_readyState_def
  addLog_def slice_last_def ws_onopen_def ws_onclose_def ws_onerror_def reconnect_timeout_def
  set_readyState_def ws_close_def startCamera_def stopCamera_def clear_gate_def
  sendFrameToBackend_def loop_cycle_def img_onload_def Let_def

text \<open>
  Claim C1. At most one outbound frame is in flight: after any sequence of events of the
  page (clicks, socket events, image loads, timeouts, capture cycles with any captured
  flags and any outcome of the capture), the number of frames handed to \<open>send\<close> since the
  gate \<open>processingRef\<close> was last cleared is at most 1. \<open>sendFrameToBackend\<close> does nothing
  while the gate is set, and when it sends a frame the gate is set.
\<close>

theorem single_in_flight:
  "inFlight (run JSON_parse initial_home evs) \<le> 1 \<and>
   (processingRef s \<longrightarrow> sendFrameToBackend capture time s = s) \<and>
   (wsRef s = Some k \<and> ws_readyState s = Some OPEN \<and> videoMounted s \<and> video_readyState s = 4 \<and>
    \<not> processingRef s \<longrightarrow>
      processingRef (sendFrameToBackend (Encoded frameData) time s) \<and>
      sent (sendFrameToBackend (Encoded frameData) time s) =
        sent s @ [(k, \<lparr>frame_data = frameData, frame_timestamp = time\<rparr>)])"
proof -
  have "gate_invariant (run JSON_parse initial_home evs)"
    using gate_initial by (rule gate_run)
  then have "inFlight (run JSON_parse initial_home evs) \<le> 1" by (rule gate_bound)
  moreover have "processingRef s \<longrightarrow> sendFrameToBackend capture time s = s"
    by (simp add: sendFrameToBackend_def split: option.splits)
  moreover have "wsRef s = Some k \<and> ws_readyState s = Some OPEN \<and> videoMounted s \<and>
      video_readyState s = 4 \<and> \<not> processingRef s \<longrightarrow>
      processingRef (sendFrameToBackend (Encoded frameData) time s) \<and>
      sent (sendFrameToBackend (Encoded frameData) time s) =
        sent s @ [(k, \<lparr>frame_data = frameData, frame_timestamp = time\<rparr>)]"
    by (simp add: sendFrameToBackend_def Let_def)
  ultimately show ?thesis by blast
qed

theorem single_in_flight_witness:
  "processingRef (run example_parse initial_home first_frame_run) \<and>
   sendFrameToBackend (Encoded ''frame2'') 20 (run example_parse initial_home first_frame_run) =
     run example_parse initial_home first_frame_run \<and>
   inFlight (run example_parse initial_home
      (first_frame_run @ [AnimationFrame True True (Encoded ''frame2'') 20])) \<le> 1 \<and>
   wsRef (run example_parse initial_home streaming_run) = Some 0 \<and>
   ws_readyState (run example_parse initial_home streaming_run) = Some OPEN \<and>
   \<not> processingRef (run example_parse initial_home streaming_run) \<and>
   sent (sendFrameToBackend (Encoded ''frame1'') 10 (run example_parse initial_home streaming_run)) =
     [(0, \<lparr>frame_data = ''frame1'', frame_timestamp = 10\<rparr>)]"
  using single_in_flight [of example_parse
      "first_frame_run @ [AnimationFrame True True (Encoded ''frame2'') 20]"
      "run example_parse initial_home first_frame_run" "Encoded ''frame2''" 20]
    single_in_flight [of example_parse "[]" "run example_parse initial_home streaming_run"
      "Encoded ''frame2''" 20 0 "''frame1''"]
  by (simp add: home_eval)

section \<open>Properties of the connection manager\<close>

text \<open>
  Claim C2 does not hold of the code. \<open>onclose\<close> tests the \<open>streamState.isStreaming\<close> its
  closure captured when \<open>connectWebSocket\<close> was made, not the flag at the time of the close
  event. In the first run the engine is connected before streaming starts and the socket
  is then lost while streaming: no reconnect is scheduled and the counter stays 0. In the
  second run the user connects again while streaming and then stops: the socket closed by
  the stop schedules a reconnect after 3000 ms although streaming is off.
\<close>

theorem reconnect_reads_stale_flag:
  "isStreaming (run example_parse initial_home lost_while_streaming) \<and>
   \<not> isConnected (run example_parse initial_home lost_while_streaming) \<and>
   timeouts (run example_parse initial_home lost_while_streaming) = [] \<and>
   reconnectCount (run example_parse initial_home lost_while_streaming) = 0 \<and>
   \<not> isStreaming (run example_parse initial_home stopped_after_reconnect) \<and>
   timeouts (run example_parse initial_home stopped_after_reconnect) = [(3000, True)]"
  by (simp add: home_eval)

text \<open>
  Claim C3, as stated, fails for a connection that is still connecting:
  \<open>connectWebSocket\<close> returns early only when the current socket is open. Called again
  while the first socket is connecting, it makes a second socket and puts it in \<open>wsRef\<close>.
\<close>

theorem connect_while_connecting_counterexample:
  "isConnecting (run example_parse initial_home [ClickConnect]) \<and>
   ws_readyState (run example_parse initial_home [ClickConnect]) = Some CONNECTING \<and>
   length (sockets (run example_parse initial_home [ClickConnect])) = 1 \<and>
   length (sockets (connectWebSocket False (run example_parse initial_home [ClickConnect]))) = 2 \<and>
   wsRef (connectWebSocket False (run example_parse initial_home [ClickConnect])) = Some 1 \<and>
   connectWebSocket False (run example_parse initial_home [ClickConnect])
     \<noteq> run example_parse initial_home [ClickConnect]"
  by (simp add: home_eval)

text \<open>
  Claim C3, amended. Calling \<open>connectWebSocket\<close> when the current socket is open (the
  manager is connected) is a no-op: the whole state, with its list of sockets and its
  connection flags, is unchanged.
\<close>

theorem connect_when_open_noop:
  assumes "ws_readyState s = Some OPEN"
  shows "connectWebSocket captured s = s"
  using assms by (simp add: connectWebSocket_def)

theorem connect_when_open_noop_witness:
  "ws_readyState (run example_parse initial_home connected_run) = Some OPEN \<and>
   isConnected (run example_parse initial_home connected_run) \<and>
   connectWebSocket True (run example_parse initial_home connected_run) =
     run example_parse initial_home connected_run"
  using connect_when_open_noop [of "run example_parse initial_home connected_run" True]
  by (simp add: home_eval)

text \<open>
  Claim C8. For a raw payload that \<open>JSON.parse\<close> rejects, the message handler ends
  without an exception, and its only effect is the logged decode error: the streaming
  flag, the in-flight gate and the processed-frame counter are unchanged.
\<close>

theorem malformed_message_dropped:
  assumes "JSON_parse raw = None"
  shows "ws_onmessage JSON_parse raw s =
           Inr (s\<lparr>logs := slice_last 7 (logs s) @ [(error, ''Message parsing failed: SyntaxError'')]\<rparr>) \<and>
         (\<forall>s'. ws_onmessage JSON_parse raw s = Inr s' \<longrightarrow>
            isStreaming s' = isStreaming s \<and> processingRef s' = processingRef s \<and>
            processedFrames s' = processedFrames s)"
  using assms by (auto simp: ws_onmessage_def onmessage_try_def addLog_def exn_text_def)

theorem malformed_message_dropped_witness:
  "example_parse ''{not json'' = None \<and>
   ws_onmessage example_parse ''{not json'' (run example_parse initial_home first_frame_run) =
     Inr ((run example_parse initial_home first_frame_run)
           \<lparr>logs := slice_last 7 (logs (run example_parse initial_home first_frame_run)) @
                    [(error, ''Message parsing failed: SyntaxError'')]\<rparr>)"
  using malformed_message_dropped [of example_parse "''{not json''"
      "run example_parse initial_home first_frame_run"]
  by (simp add: example_parse_def)

section \<open>Properties of the recording subsystem\<close>

lemmas studio_eval = studio_run_def finalize_scenario_def startRecording_def ondataavailable_def
  tick_def stopRecording_def onstop_def initial_studio_def recording_name_def example_clock_def

text \<open>
  The finalize scenario puts exactly one new entry in front of the catalog and leaves
  the older entries as they were; the size of the entry is that of all chunks. Its
  duration is the \<open>recordingTime\<close> from before the start, while the timer has counted 3.
\<close>

lemma finalize_prepends:
  assumes "0 < c1" "0 < c2" "0 < c3"
  shows "recordings (studio_run s (finalize_scenario c1 c2 c3 rest clock)) =
     \<lparr>rec_id = decimal (now clock), rec_name = recording_name (iso clock),
      duration = recordingTime s,
      rec_size = formatFileSize (c1 + c2 + c3 + rest),
      rec_timestamp = now clock, thumbnail = url clock\<rparr> # recordings s"
  using assms
  by (auto simp: studio_run_def finalize_scenario_def startRecording_def ondataavailable_def
      tick_def stopRecording_def onstop_def ac_simps)

lemma finalize_elapsed:
  "recordingTime (studio_run s (finalize_scenario c1 c2 c3 rest clock)) = 3"
  by (simp add: studio_run_def finalize_scenario_def startRecording_def ondataavailable_def
      tick_def stopRecording_def onstop_def)

text \<open>
  Claim C9 does not hold of the code. On a freshly mounted component, a recording of
  three one-second segments of 1000 bytes each ends with the timer at 3 and one catalog
  entry of size \<open>2.93 KB\<close>, but the duration of the entry is 0: \<open>onstop\<close> reads the
  \<open>recordingTime\<close> its closure captured when the recording was started.
\<close>

theorem finalize_records_stale_duration:
  "recordingTime (studio_run initial_studio (finalize_scenario 1000 1000 1000 0 example_clock)) = 3 \<and>
   map duration (recordings
     (studio_run initial_studio (finalize_scenario 1000 1000 1000 0 example_clock))) = [0] \<and>
   map rec_size (recordings
     (studio_run initial_studio (finalize_scenario 1000 1000 1000 0 example_clock))) = [''2.93 KB'']"
  by (simp add: studio_eval formatFileSize_eval)

end
